theory Spec2Isabelle
  imports Main
begin

section \<open>Strings and characters\<close>

text \<open>
  A Python \<open>str\<close> is modelled as an Isabelle \<open>string\<close>; a \<open>char\<close> stands for the code
  point of the same number, so the model covers the strings whose code points are below 256.
  On that range \<open>str.isspace\<close> (which is also the class \<open>\s\<close> of \<open>re\<close> on \<open>str\<close> patterns and
  the set removed by \<open>str.strip()\<close>) holds for 9..13, 28..32, 133 and 160, and \<open>str.lower\<close> maps
  A..Z and the letters 192..222 other than 215 to the code point 32 above.
\<close>

definition isspace :: "char \<Rightarrow> bool" where
  "isspace c = (let n = (of_char c :: nat) in
     (9 \<le> n \<and> n \<le> 13) \<or> (28 \<le> n \<and> n \<le> 32) \<or> n = 133 \<or> n = 160)"

definition lower_chr :: "char \<Rightarrow> char" where
  "lower_chr c = (let n = (of_char c :: nat) in
     if (65 \<le> n \<and> n \<le> 90) \<or> (192 \<le> n \<and> n \<le> 222 \<and> n \<noteq> 215)
     then char_of (n + 32) else c)"

definition lower :: "string \<Rightarrow> string" where
  "lower s = map lower_chr s"

definition lstrip :: "string \<Rightarrow> string" where
  "lstrip s = dropWhile isspace s"

definition rstrip :: "string \<Rightarrow> string" where
  "rstrip s = rev (dropWhile isspace (rev s))"

definition strip :: "string \<Rightarrow> string" where
  "strip s = rstrip (lstrip s)"

fun startswith :: "string \<Rightarrow> string \<Rightarrow> bool" where
  "startswith s [] = True"
| "startswith [] (p # ps) = False"
| "startswith (x # xs) (p # ps) = (x = p \<and> startswith xs ps)"

text \<open>\<open>sub in s\<close> on strings.\<close>

fun contains :: "string \<Rightarrow> string \<Rightarrow> bool" where
  "contains [] sub = (sub = [])"
| "contains (x # xs) sub = (startswith (x # xs) sub \<or> contains xs sub)"

text \<open>\<open>s.replace(a, b)\<close> for a single character \<open>a\<close>.\<close>

definition replace_chr :: "char \<Rightarrow> string \<Rightarrow> string \<Rightarrow> string" where
  "replace_chr a b s = concat (map (\<lambda>c. if c = a then b else [c]) s)"

datatype exn = AttributeError | KeyError | ValueError | FileNotFoundError

section \<open>The regular expressions of the \<open>re\<close> module\<close>

text \<open>
  The patterns of the program use literals, character classes, concatenation, alternation,
  greedy and lazy repetition of a character class, one capturing group and \<open>$\<close>. The matcher
  \<open>ms\<close> returns, for a pattern and a state (group 1 so far, remaining input), the states after
  every way of matching at the current position, in the order in which the backtracking
  matcher of \<open>re\<close> tries them: the head of the list is the match \<open>re\<close> reports.
  \<open>r+\<close> is \<open>r\<close> followed by \<open>r*\<close>, \<open>r?\<close> is \<open>r\<close> or else nothing.
\<close>

datatype regex =
    Eps
  | Atom "char \<Rightarrow> bool"
  | Seq regex regex
  | Alt regex regex
  | Star "char \<Rightarrow> bool"
  | Lazy "char \<Rightarrow> bool"
  | Grp regex
  | Dollar

type_synonym mstate = "string option \<times> string"

fun ms :: "regex \<Rightarrow> mstate \<Rightarrow> mstate list" where
  "ms Eps st = [st]"
| "ms (Atom p) (g, []) = []"
| "ms (Atom p) (g, x # xs) = (if p x then [(g, xs)] else [])"
| "ms (Seq a b) st = concat (map (ms b) (ms a st))"
| "ms (Alt a b) st = ms a st @ ms b st"
| "ms (Star p) (g, []) = [(g, [])]"
| "ms (Star p) (g, x # xs) = (if p x then ms (Star p) (g, xs) else []) @ [(g, x # xs)]"
| "ms (Lazy p) (g, []) = [(g, [])]"
| "ms (Lazy p) (g, x # xs) = (g, x # xs) # (if p x then ms (Lazy p) (g, xs) else [])"
| "ms (Grp a) (g, s) =
     map (\<lambda>(g', s'). (Some (take (length s - length s') s), s')) (ms a (g, s))"
| "ms Dollar (g, s) = (if s = [] \<or> s = [CHR 0x0A] then [(g, s)] else [])"

definition Chr :: "char \<Rightarrow> regex" where
  "Chr c = Atom (\<lambda>x. x = c)"

text \<open>A literal character under \<open>re.IGNORECASE\<close> (the pattern character is in lower case).\<close>

definition ChrI :: "char \<Rightarrow> regex" where
  "ChrI c = Atom (\<lambda>x. lower_chr x = c)"

definition Plus :: "(char \<Rightarrow> bool) \<Rightarrow> regex" where
  "Plus p = Seq (Atom p) (Star p)"

definition Opt :: "regex \<Rightarrow> regex" where
  "Opt r = Alt r Eps"

definition Cat :: "regex list \<Rightarrow> regex" where
  "Cat rs = foldr Seq rs Eps"

definition Str :: "string \<Rightarrow> regex" where
  "Str s = Cat (map Chr s)"

definition StrI :: "string \<Rightarrow> regex" where
  "StrI s = Cat (map ChrI s)"

text \<open>
  \<open>re.match\<close>: the first way of matching at the start of the input, as the matched text and
  group 1.
\<close>

definition re_match :: "regex \<Rightarrow> string \<Rightarrow> (string \<times> string option) option" where
  "re_match r s = (case ms r (None, s) of [] \<Rightarrow> None
     | (g, s') # _ \<Rightarrow> Some (take (length s - length s') s, g))"

text \<open>
  \<open>finditer\<close>, \<open>sub\<close> and \<open>split\<close> scan from the left, take the first match at the leftmost
  position that has one and go on behind it. Every pattern of this program consumes at least
  one character; the branches for an empty match follow \<open>re\<close> (the empty match counts and the
  scan moves one character on) and are not reached.
\<close>

function finditer :: "regex \<Rightarrow> string \<Rightarrow> (string \<times> string option) list" where
  "finditer r [] = (case ms r (None, []) of [] \<Rightarrow> [] | (g, _) # _ \<Rightarrow> [([], g)])"
| "finditer r (x # xs) = (case ms r (None, x # xs) of
       [] \<Rightarrow> finditer r xs
     | (g, s') # _ \<Rightarrow>
         (take (Suc (length xs) - length s') (x # xs), g)
           # finditer r (if length s' \<le> length xs then s' else xs))"
  by pat_completeness auto
termination
  by (relation "measure (\<lambda>(r, s). length s)") auto

function re_sub :: "regex \<Rightarrow> string \<Rightarrow> string \<Rightarrow> string" where
  "re_sub r repl [] = (case ms r (None, []) of [] \<Rightarrow> [] | _ # _ \<Rightarrow> repl)"
| "re_sub r repl (x # xs) = (case ms r (None, x # xs) of
       [] \<Rightarrow> x # re_sub r repl xs
     | (g, s') # _ \<Rightarrow>
         if length s' \<le> length xs then repl @ re_sub r repl s'
         else repl @ x # re_sub r repl xs)"
  by pat_completeness auto
termination
  by (relation "measure (\<lambda>(r, repl, s). length s)") auto

text \<open>\<open>re.split\<close> for a pattern without capturing group; \<open>acc\<close> is the current piece, reversed.\<close>

function split_from :: "regex \<Rightarrow> string \<Rightarrow> string \<Rightarrow> string list" where
  "split_from r acc [] = (case ms r (None, []) of [] \<Rightarrow> [rev acc] | _ # _ \<Rightarrow> [rev acc, []])"
| "split_from r acc (x # xs) = (case ms r (None, x # xs) of
       [] \<Rightarrow> split_from r (x # acc) xs
     | (g, s') # _ \<Rightarrow>
         if length s' \<le> length xs then rev acc # split_from r [] s'
         else rev acc # split_from r [x] xs)"
  by pat_completeness auto
termination
  by (relation "measure (\<lambda>(r, acc, s). length s)") auto

definition re_split :: "regex \<Rightarrow> string \<Rightarrow> string list" where
  "re_split r s = split_from r [] s"

section \<open>value\_parsing.py\<close>

text \<open>\<^verbatim>\<open>WIKI_LINK_RE = \[\[([^\]|#]+)(?:\|[^\]]+)?\]\]\<close>\<close>

definition WIKI_LINK_RE :: regex where
  "WIKI_LINK_RE = Cat [Chr CHR ''['', Chr CHR ''['',
     Grp (Plus (\<lambda>c. c \<noteq> CHR '']'' \<and> c \<noteq> CHR ''|'' \<and> c \<noteq> CHR ''#'')),
     Opt (Cat [Chr CHR ''|'', Plus (\<lambda>c. c \<noteq> CHR '']'')]),
     Chr CHR '']'', Chr CHR '']'']"

text \<open>\<^verbatim>\<open><ref[^>]*>.*?</ref>\<close> with IGNORECASE and DOTALL\<close>

definition REF_BLOCK_RE :: regex where
  "REF_BLOCK_RE = Cat [StrI ''<ref'', Star (\<lambda>c. c \<noteq> CHR ''>''), Chr CHR ''>'',
     Lazy (\<lambda>c. True), StrI ''</ref>'']"

text \<open>\<^verbatim>\<open><ref[^/]*/\s*>\<close> with IGNORECASE\<close>

definition REF_SELF_RE :: regex where
  "REF_SELF_RE = Cat [StrI ''<ref'', Star (\<lambda>c. c \<noteq> CHR ''/''), Chr CHR ''/'',
     Star isspace, Chr CHR ''>'']"

text \<open>\<^verbatim>\<open><br\s*/?>\<close> with IGNORECASE\<close>

definition BR_RE :: regex where
  "BR_RE = Cat [StrI ''<br'', Star isspace, Opt (Chr CHR ''/''), Chr CHR ''>'']"

text \<open>\<^verbatim>\<open></?[^>]+>\<close>\<close>

definition TAG_RE :: regex where
  "TAG_RE = Cat [Chr CHR ''<'', Opt (Chr CHR ''/''), Plus (\<lambda>c. c \<noteq> CHR ''>''), Chr CHR ''>'']"

text \<open>\<^verbatim>\<open>[ \t\r\f\v]+\<close>\<close>

definition HSPACE_RE :: regex where
  "HSPACE_RE = Plus (\<lambda>c. c = CHR '' '' \<or> c = CHR 0x09 \<or> c = CHR 0x0D \<or> c = CHR 0x0C
     \<or> c = CHR 0x0B)"

text \<open>\<^verbatim>\<open>\n\s*\n+\<close>\<close>

definition BLANK_LINES_RE :: regex where
  "BLANK_LINES_RE = Cat [Chr CHR 0x0A, Star isspace, Plus (\<lambda>c. c = CHR 0x0A)]"

definition strip_markup :: "string \<Rightarrow> string" where
  "strip_markup text =
    (let t = strip text;
         t = re_sub REF_BLOCK_RE [] t;
         t = re_sub REF_SELF_RE [] t;
         t = re_sub BR_RE [CHR 0x0A] t;
         t = re_sub TAG_RE [] t;
         t = re_sub HSPACE_RE '' '' t;
         t = strip (re_sub BLANK_LINES_RE [CHR 0x0A] t)
     in t)"

text \<open>\<^verbatim>\<open>[\n;]+|(?:\s*,\s*)\<close>\<close>

definition LIST_SEP_RE :: regex where
  "LIST_SEP_RE = Alt (Plus (\<lambda>c. c = CHR 0x0A \<or> c = CHR '';''))
     (Cat [Star isspace, Chr CHR '','', Star isspace])"

definition split_listish :: "string \<Rightarrow> string list" where
  "split_listish text =
    (let t = strip_markup text;
         parts = re_split LIST_SEP_RE t
     in map strip (filter (\<lambda>p. strip p \<noteq> []) parts))"

text \<open>
  \<open>m.group(1).strip()\<close> raises AttributeError when group 1 did not take part in the match
  (\<open>group(1)\<close> is then \<open>None\<close>).
\<close>

fun group1_strip :: "string \<times> string option \<Rightarrow> exn + string" where
  "group1_strip (m, None) = Inl AttributeError"
| "group1_strip (m, Some t) = Inr (strip t)"

text \<open>A list comprehension over a body that may raise: the first exception ends it.\<close>

fun collect :: "(exn + 'a) list \<Rightarrow> exn + 'a list" where
  "collect [] = Inr []"
| "collect (Inl e # rs) = Inl e"
| "collect (Inr v # rs) = (case collect rs of Inl e \<Rightarrow> Inl e | Inr vs \<Rightarrow> Inr (v # vs))"

definition extract_wikilinks :: "string \<Rightarrow> exn + string list" where
  "extract_wikilinks text = collect (map group1_strip (finditer WIKI_LINK_RE text))"

text \<open>\<^verbatim>\<open>\(\s*\)\<close>\<close>

definition EMPTY_PARENS_RE :: regex where
  "EMPTY_PARENS_RE = Cat [Chr CHR ''('', Star isspace, Chr CHR '')'']"

definition parse_value :: "string \<Rightarrow> exn + (string list \<times> string list)" where
  "parse_value text =
    (case extract_wikilinks text of
       Inl e \<Rightarrow> Inl e
     | Inr linked \<Rightarrow>
        (let cleaned = strip_markup text;
             cleaned = re_sub WIKI_LINK_RE [] cleaned;
             cleaned = strip (re_sub EMPTY_PARENS_RE [] cleaned);
             literal_parts = (if cleaned \<noteq> [] then split_listish cleaned else [])
         in Inr (linked, literal_parts)))"

section \<open>build\_kg.py\<close>

subsection \<open>Settings and the statement graph\<close>

text \<open>
  \<open>configs/settings.py\<close> is not among the sources: its constants \<open>KG_BASE\<close> and
  \<open>TG_WIKI_BASE\<close> are parameters. \<open>bracketed_host_ok\<close> stands for the check
  \<open>_check_bracketed_host\<close> of \<open>urllib.parse\<close> (validation of an IPv6 or IPvFuture literal by the
  \<open>ipaddress\<close> library) not raising.
\<close>

record env =
  KG_BASE :: string
  TG_WIKI_BASE :: string
  bracketed_host_ok :: "string \<Rightarrow> bool"

text \<open>
  The nodes of \<open>rdflib\<close>: \<open>URIRef(s)\<close>, \<open>Literal(s)\<close> and \<open>Literal(s, lang=l)\<close>. A \<open>Graph\<close> is a
  set of triples; \<open>g.add\<close> inserts.
\<close>

datatype node = URIRef string | Literal string | LangLiteral string string

type_synonym triple = "node \<times> node \<times> node"

type_synonym graph = "triple set"

definition SCHEMA :: "string \<Rightarrow> node" where
  "SCHEMA local = URIRef (''http://schema.org/'' @ local)"

definition RDFS_label :: node where
  "RDFS_label = URIRef ''http://www.w3.org/2000/01/rdf-schema#label''"

definition OWL_sameAs :: node where
  "OWL_sameAs = URIRef ''http://www.w3.org/2002/07/owl#sameAs''"

definition RDF_type :: node where
  "RDF_type = URIRef ''http://www.w3.org/1999/02/22-rdf-syntax-ns#type''"

text \<open>\<open>s.rstrip("/")\<close>\<close>

definition rstrip_slash :: "string \<Rightarrow> string" where
  "rstrip_slash s = rev (dropWhile (\<lambda>c. c = CHR ''/'') (rev s))"

definition RES :: "env \<Rightarrow> string" where
  "RES E = rstrip_slash (KG_BASE E) @ ''/resource/''"

definition PAGE :: "env \<Rightarrow> string" where
  "PAGE E = rstrip_slash (KG_BASE E) @ ''/page/''"

definition BAD_LINK_PREFIXES :: "string list" where
  "BAD_LINK_PREFIXES =
    [''category:'', ''file:'', ''template:'', ''help:'', ''special:'', ''talk:'']"

text \<open>\<open>s.startswith(prefixes)\<close> for a tuple of prefixes: one of them starts \<open>s\<close>.\<close>

definition startswith_any :: "string \<Rightarrow> string list \<Rightarrow> bool" where
  "startswith_any s ps = list_ex (startswith s) ps"

text \<open>\<^verbatim>\<open>https?://[^\s\]]+\<close>\<close>

definition URL_RE :: regex where
  "URL_RE = Cat [Str ''http'', Opt (Chr CHR ''s''), Str ''://'',
     Plus (\<lambda>c. \<not> isspace c \<and> c \<noteq> CHR '']'')]"

definition normalize_template_name :: "string \<Rightarrow> string" where
  "normalize_template_name name = replace_chr CHR ''_'' '' '' (lower (strip name))"

subsection \<open>\<open>urllib.parse.quote\<close>\<close>

text \<open>
  \<open>quote\<close> encodes the string in UTF-8 (one byte for a code point below 128, two bytes for
  128..255) and writes every byte that is neither always safe (ASCII letters, digits and
  \<open>_.-~\<close>) nor in \<open>safe\<close> as \<open>%\<close> and two upper-case hexadecimal digits.
\<close>

definition always_safe :: "char \<Rightarrow> bool" where
  "always_safe c = (let n = (of_char c :: nat) in
     (65 \<le> n \<and> n \<le> 90) \<or> (97 \<le> n \<and> n \<le> 122) \<or> (48 \<le> n \<and> n \<le> 57)
     \<or> c = CHR ''_'' \<or> c = CHR ''.'' \<or> c = CHR ''-'' \<or> c = CHR ''~'')"

definition utf8 :: "char \<Rightarrow> nat list" where
  "utf8 c = (let n = (of_char c :: nat) in
     if n < 128 then [n] else [192 + n div 64, 128 + n mod 64])"

definition hex_digit :: "nat \<Rightarrow> char" where
  "hex_digit k = ''0123456789ABCDEF'' ! (k mod 16)"

definition quote_byte :: "string \<Rightarrow> nat \<Rightarrow> string" where
  "quote_byte safe b =
     (if b < 128 \<and> (always_safe (char_of b) \<or> char_of b \<in> set safe) then [char_of b]
      else [CHR ''%'', hex_digit (b div 16), hex_digit b])"

definition quote :: "string \<Rightarrow> string \<Rightarrow> string" where
  "quote s safe = concat (map (quote_byte safe) (concat (map utf8 s)))"

definition TITLE_SAFE :: string where
  "TITLE_SAFE = ''ABCDEFGHIJKLMNOPQRSTUVWXYZabcdefghijklmnopqrstuvwxyz0123456789_.~-''"

definition uri_escape_title :: "string \<Rightarrow> string" where
  "uri_escape_title title =
    (let t = replace_chr CHR '' '' ''_'' (strip title) in quote t TITLE_SAFE)"

definition resource_uri :: "env \<Rightarrow> string \<Rightarrow> node" where
  "resource_uri E title = URIRef (RES E @ uri_escape_title title)"

definition page_uri :: "env \<Rightarrow> string \<Rightarrow> node" where
  "page_uri E title = URIRef (PAGE E @ uri_escape_title title)"

definition wiki_url :: "env \<Rightarrow> string \<Rightarrow> node" where
  "wiki_url E title = URIRef (TG_WIKI_BASE E @ uri_escape_title title)"

subsection \<open>\<open>urllib.parse.urlsplit\<close> and \<open>urlunsplit\<close>\<close>

text \<open>
  After CPython 3.11: leading characters up to the space are removed, then every tab, carriage
  return and newline; a scheme is split off when the text before the first colon is not
  empty, starts with an ASCII letter and consists of letters, digits and \<open>+-.\<close>; after \<open>//\<close> the
  authority runs to the first of \<open>/?#\<close>; a bracket without its partner, or a bracketed host the
  library rejects, raises ValueError; then the fragment and the query are split off. The NFKC
  check of the authority raises for no code point below 256.
\<close>

record split_result =
  scheme :: string
  netloc :: string
  path :: string
  query :: string
  fragment :: string

definition ascii_alpha :: "char \<Rightarrow> bool" where
  "ascii_alpha c = (let n = (of_char c :: nat) in
     (65 \<le> n \<and> n \<le> 90) \<or> (97 \<le> n \<and> n \<le> 122))"

definition ascii_digit :: "char \<Rightarrow> bool" where
  "ascii_digit c = (let n = (of_char c :: nat) in 48 \<le> n \<and> n \<le> 57)"

definition scheme_char :: "char \<Rightarrow> bool" where
  "scheme_char c = (ascii_alpha c \<or> ascii_digit c
     \<or> c = CHR ''+'' \<or> c = CHR ''-'' \<or> c = CHR ''.'')"

text \<open>\<open>s.split(c, 1)\<close> when \<open>c\<close> occurs in \<open>s\<close>, and \<open>(s, "")\<close> otherwise.\<close>

definition split_once :: "char \<Rightarrow> string \<Rightarrow> string \<times> string" where
  "split_once c s = (takeWhile (\<lambda>x. x \<noteq> c) s, drop 1 (dropWhile (\<lambda>x. x \<noteq> c) s))"

definition split_scheme :: "string \<Rightarrow> string \<times> string" where
  "split_scheme url =
    (let pre = takeWhile (\<lambda>c. c \<noteq> CHR '':'') url
     in if length pre < length url \<and> pre \<noteq> [] \<and> ascii_alpha (hd url)
           \<and> list_all scheme_char pre
        then (lower pre, drop (Suc (length pre)) url)
        else ([], url))"

definition is_delim :: "char \<Rightarrow> bool" where
  "is_delim c = (c = CHR ''/'' \<or> c = CHR ''?'' \<or> c = CHR ''#'')"

definition urlsplit :: "(string \<Rightarrow> bool) \<Rightarrow> string \<Rightarrow> exn + split_result" where
  "urlsplit host_ok url0 =
    (let url = dropWhile (\<lambda>c. (of_char c :: nat) \<le> 32) url0;
         url = filter (\<lambda>c. c \<noteq> CHR 0x09 \<and> c \<noteq> CHR 0x0D \<and> c \<noteq> CHR 0x0A) url;
         (sch, url) = split_scheme url;
         (nl, url) = (if take 2 url = ''//''
                      then (takeWhile (\<lambda>c. \<not> is_delim c) (drop 2 url),
                            dropWhile (\<lambda>c. \<not> is_delim c) (drop 2 url))
                      else ([], url));
         lb = (CHR ''['' \<in> set nl);
         rb = (CHR '']'' \<in> set nl)
     in if (lb \<and> \<not> rb) \<or> (rb \<and> \<not> lb) then Inl ValueError
        else if lb \<and> rb \<and>
                \<not> host_ok (takeWhile (\<lambda>c. c \<noteq> CHR '']'')
                              (drop 1 (dropWhile (\<lambda>c. c \<noteq> CHR ''['') nl)))
        then Inl ValueError
        else (let (url, frag) = split_once CHR ''#'' url;
                  (url, qry) = split_once CHR ''?'' url
              in Inr \<lparr>scheme = sch, netloc = nl, path = url, query = qry, fragment = frag\<rparr>))"

definition uses_netloc :: "string list" where
  "uses_netloc = [[], ''ftp'', ''http'', ''gopher'', ''nntp'', ''telnet'', ''imap'', ''wais'',
     ''file'', ''mms'', ''https'', ''shttp'', ''snews'', ''prospero'', ''rtsp'', ''rtsps'',
     ''rtspu'', ''rsync'', ''svn'', ''svn+ssh'', ''sftp'', ''nfs'', ''git'', ''git+ssh'', ''ws'',
     ''wss'']"

definition urlunsplit :: "split_result \<Rightarrow> string" where
  "urlunsplit c =
    (let url = path c;
         url = (if netloc c \<noteq> [] \<or> (scheme c \<noteq> [] \<and> scheme c \<in> set uses_netloc)
                   \<or> take 2 url = ''//''
                then ''//'' @ netloc c
                       @ (if url \<noteq> [] \<and> take 1 url \<noteq> ''/'' then ''/'' @ url else url)
                else url);
         url = (if scheme c \<noteq> [] then scheme c @ '':'' @ url else url);
         url = (if query c \<noteq> [] then url @ ''?'' @ query c else url);
         url = (if fragment c \<noteq> [] then url @ ''#'' @ fragment c else url)
     in url)"

subsection \<open>Safe IRIs for external URLs\<close>

text \<open>The safe sets \<^verbatim>\<open>/:_()'-.,~%\<close>, \<^verbatim>\<open>=&?/:_()'-.,~%\<close> and \<^verbatim>\<open>:_()'-.,~%\<close>.\<close>

definition PATH_SAFE :: string where
  "PATH_SAFE = ''/:_()'' @ [CHR 0x27] @ ''-.,~%''"

definition QUERY_SAFE :: string where
  "QUERY_SAFE = ''=&?/:_()'' @ [CHR 0x27] @ ''-.,~%''"

definition FRAGMENT_SAFE :: string where
  "FRAGMENT_SAFE = '':_()'' @ [CHR 0x27] @ ''-.,~%''"

text \<open>The body of the \<open>try\<close> block of \<open>safe_iri\<close>: what \<open>urlsplit\<close> raises leaves it.\<close>

definition safe_iri_try :: "env \<Rightarrow> string \<Rightarrow> exn + string option" where
  "safe_iri_try E url =
    (case urlsplit (bracketed_host_ok E) url of
       Inl e \<Rightarrow> Inl e
     | Inr parts \<Rightarrow>
         if scheme parts = [] \<or> netloc parts = [] then Inr None
         else Inr (Some (urlunsplit
                \<lparr>scheme = scheme parts, netloc = netloc parts,
                 path = quote (path parts) PATH_SAFE,
                 query = quote (query parts) QUERY_SAFE,
                 fragment = quote (fragment parts) FRAGMENT_SAFE\<rparr>)))"

text \<open>\<open>except Exception: return None\<close>\<close>

definition safe_iri :: "env \<Rightarrow> string \<Rightarrow> exn + string option" where
  "safe_iri E url0 =
    (let url = strip url0
     in if url = [] then Inr None
        else (case safe_iri_try E url of Inl e \<Rightarrow> Inr None | Inr res \<Rightarrow> Inr res))"

definition extract_urls :: "string \<Rightarrow> string list" where
  "extract_urls raw = (if strip raw = [] then [] else map fst (finditer URL_RE raw))"

text \<open>\<^verbatim>\<open>^[a-zA-Z0-9.-]+\.[a-zA-Z]{2,}(/.*)?$\<close>, used with \<open>re.match\<close>, which starts at \<open>^\<close>.\<close>

definition BARE_DOMAIN_RE :: regex where
  "BARE_DOMAIN_RE = Cat [
     Plus (\<lambda>c. ascii_alpha c \<or> ascii_digit c \<or> c = CHR ''.'' \<or> c = CHR ''-''),
     Chr CHR ''.'', Atom ascii_alpha, Atom ascii_alpha, Star ascii_alpha,
     Opt (Grp (Cat [Chr CHR ''/'', Star (\<lambda>c. c \<noteq> CHR 0x0A)])), Dollar]"

definition normalize_url :: "env \<Rightarrow> string \<Rightarrow> exn + string option" where
  "normalize_url E u0 =
    (let u = strip (strip_markup u0)
     in if u = [] then Inr None
        else if startswith u ''http://'' \<or> startswith u ''https://'' then safe_iri E u
        else if re_match BARE_DOMAIN_RE u \<noteq> None then safe_iri E (''https://'' @ u)
        else Inr None)"

subsection \<open>Cached pages and template mappings\<close>

text \<open>
  A template invocation as the wikitext parser returns it: \<open>str(t.name)\<close> and, for each
  parameter in order, \<open>str(param.name)\<close> and \<open>str(param.value)\<close>.
\<close>

record template =
  tmpl_name :: string
  tmpl_params :: "(string \<times> string) list"

text \<open>
  The cached parse output of a page, as far as the program reads it: the templates
  \<open>mwparserfromhell.parse(wikitext).filter_templates(recursive=True)\<close> finds in its wikitext,
  the \<open>title\<close> of each entry of \<open>links\<close>, and the strings of \<open>externallinks\<close>.
\<close>

record page_json =
  pj_templates :: "template list"
  pj_links :: "string list"
  pj_externallinks :: "string list"

text \<open>
  A field rule of the mapping file is a JSON object: \<open>rule["property"]\<close> raises KeyError when
  the key is absent, \<open>rule.get("kind", "auto")\<close> does not. An infobox specification has the
  optional keys \<open>class\<close>, \<open>tg_class\<close> and \<open>fields\<close> (absent: no field).
\<close>

record field_rule =
  rule_property :: "string option"
  rule_kind :: "string option"

record infobox_spec =
  spec_class :: "string option"
  spec_tg_class :: "string option"
  spec_fields :: "string \<rightharpoonup> field_rule"

type_synonym mappings = "string \<rightharpoonup> infobox_spec"

definition extract_links :: "page_json \<Rightarrow> string list" where
  "extract_links pj =
     filter (\<lambda>title. title \<noteq> [] \<and> \<not> startswith_any (lower title) BAD_LINK_PREFIXES)
       (pj_links pj)"

definition extract_externallinks :: "page_json \<Rightarrow> string list" where
  "extract_externallinks pj = pj_externallinks pj"

definition find_mapped_templates :: "page_json \<Rightarrow> mappings \<Rightarrow> template list" where
  "find_mapped_templates pj m =
     filter (\<lambda>t. m (normalize_template_name (tmpl_name t)) \<noteq> None) (pj_templates pj)"

subsection \<open>Infobox value helpers and core triples\<close>

definition image_filename_to_filepage_url :: "env \<Rightarrow> string \<Rightarrow> string option" where
  "image_filename_to_filepage_url E filename =
    (let f = strip (strip_markup filename)
     in if f = [] then None
        else (let f = (if startswith (lower f) ''file:'' then drop 5 f else f)
              in Some (TG_WIKI_BASE E @ ''File:'' @ uri_escape_title f)))"

definition add_core_triples :: "env \<Rightarrow> graph \<Rightarrow> string \<Rightarrow> graph \<times> node \<times> node" where
  "add_core_triples E g title =
    (let p = page_uri E title;
         r = resource_uri E title;
         g = insert (p, SCHEMA ''about'', r) g;
         wurl = wiki_url E title;
         g = insert (p, SCHEMA ''url'', wurl) g;
         g = insert (r, SCHEMA ''url'', wurl) g;
         g = insert (r, RDFS_label, LangLiteral title ''en'') g;
         g = insert (p, RDFS_label, LangLiteral title ''en'') g
     in (g, p, r))"

subsection \<open>Applying a mapping to a template\<close>

text \<open>A loop whose body may raise: the first exception leaves the loop.\<close>

fun for_each :: "('s \<Rightarrow> 'a \<Rightarrow> exn + 's) \<Rightarrow> 's \<Rightarrow> 'a list \<Rightarrow> exn + 's" where
  "for_each f s [] = Inr s"
| "for_each f s (x # xs) = (case f s x of Inl e \<Rightarrow> Inl e | Inr s' \<Rightarrow> for_each f s' xs)"

text \<open>\<open>nu = normalize_url(u); if nu: g.add((r, prop, URIRef(nu)))\<close>\<close>

definition add_url :: "env \<Rightarrow> node \<Rightarrow> node \<Rightarrow> graph \<Rightarrow> string \<Rightarrow> exn + graph" where
  "add_url E r prop g u =
    (case normalize_url E u of
       Inl e \<Rightarrow> Inl e
     | Inr None \<Rightarrow> Inr g
     | Inr (Some nu) \<Rightarrow> if nu \<noteq> [] then Inr (insert (r, prop, URIRef nu) g) else Inr g)"

text \<open>The statements of the branch for the kinds \<open>wikilink_or_literal\<close> and \<open>auto\<close>.\<close>

definition link_ok :: "string \<Rightarrow> bool" where
  "link_ok t = (t \<noteq> [] \<and> \<not> startswith_any (lower t) BAD_LINK_PREFIXES)"

definition auto_triples ::
  "env \<Rightarrow> node \<Rightarrow> node \<Rightarrow> string \<Rightarrow> string list \<Rightarrow> string list \<Rightarrow> graph" where
  "auto_triples E r prop raw linked_titles literal_parts =
     (\<lambda>t. (r, prop, resource_uri E t)) ` set (filter link_ok linked_titles)
     \<union> (\<lambda>lit. (r, prop, Literal lit)) ` set (filter (\<lambda>lit. lit \<noteq> []) literal_parts)
     \<union> (if linked_titles = [] \<and> literal_parts = []
        then {(r, prop, Literal (strip_markup raw))} else {})"

text \<open>The body of the loop over \<open>tmpl.params\<close>, for one parameter.\<close>

definition apply_param ::
  "env \<Rightarrow> node \<Rightarrow> (string \<rightharpoonup> field_rule) \<Rightarrow> graph \<Rightarrow> string \<times> string \<Rightarrow> exn + graph" where
  "apply_param E r field_rules g param =
    (let key = lower (strip (fst param))
     in case field_rules key of
          None \<Rightarrow> Inr g
        | Some rule \<Rightarrow>
           (let raw = strip (snd param)
            in if raw = [] then Inr g
               else case rule_property rule of
                 None \<Rightarrow> Inl KeyError
               | Some property \<Rightarrow>
                  (let prop = URIRef property;
                       kind = (case rule_kind rule of None \<Rightarrow> ''auto'' | Some k \<Rightarrow> k)
                   in if property = ''http://schema.org/url'' then
                        (let urls = extract_urls raw
                         in if urls \<noteq> [] then for_each (add_url E r prop) g urls
                            else add_url E r prop g raw)
                      else if kind = ''image'' then
                        (case image_filename_to_filepage_url E raw of
                           None \<Rightarrow> Inr g
                         | Some url \<Rightarrow>
                             if url \<noteq> [] then Inr (insert (r, prop, URIRef url) g) else Inr g)
                      else
                        (case parse_value raw of
                           Inl e \<Rightarrow> Inl e
                         | Inr (linked_titles, literal_parts) \<Rightarrow>
                             if kind = ''literal'' then
                               Inr (insert (r, prop, Literal (strip_markup raw)) g)
                             else if kind = ''wikilink_or_literal'' \<or> kind = ''auto'' then
                               Inr (g \<union> auto_triples E r prop raw linked_titles literal_parts)
                             else Inr (insert (r, prop, Literal (strip_markup raw)) g)))))"

definition add_type :: "node \<Rightarrow> string option \<Rightarrow> graph \<Rightarrow> graph" where
  "add_type r cls g =
    (case cls of None \<Rightarrow> g
     | Some c \<Rightarrow> if c \<noteq> [] then insert (r, RDF_type, URIRef c) g else g)"

definition apply_infobox :: "env \<Rightarrow> graph \<Rightarrow> node \<Rightarrow> template \<Rightarrow> mappings \<Rightarrow> exn + graph" where
  "apply_infobox E g r tmpl m =
    (case m (normalize_template_name (tmpl_name tmpl)) of
       None \<Rightarrow> Inr g
     | Some spec \<Rightarrow>
        (let g = add_type r (spec_class spec) g;
             g = add_type r (spec_tg_class spec) g
         in for_each (apply_param E r (spec_fields spec)) g (tmpl_params tmpl)))"

subsection \<open>The graph of one title\<close>

text \<open>The body of the loop over the external links, for one link.\<close>

definition add_external :: "env \<Rightarrow> node \<Rightarrow> node \<Rightarrow> graph \<Rightarrow> string \<Rightarrow> exn + graph" where
  "add_external E p r g u =
    (let low = lower u
     in case safe_iri E u of
          Inl e \<Rightarrow> Inl e
        | Inr safe \<Rightarrow>
           (let truthy = (case safe of None \<Rightarrow> False | Some s \<Rightarrow> s \<noteq> [])
            in if contains low ''wikipedia.org/wiki/'' \<and> truthy
               then Inr (insert (r, OWL_sameAs, URIRef (the safe)) g)
               else if truthy then Inr (insert (p, SCHEMA ''url'', URIRef (the safe)) g)
               else Inr (insert (p, SCHEMA ''url'', Literal u) g)))"

text \<open>
  \<open>cache\<close> is the directory of cached pages: \<open>parse_cached_json\<close> raises FileNotFoundError
  for a title without a file.
\<close>

definition build_graph_for_title ::
  "env \<Rightarrow> (string \<rightharpoonup> page_json) \<Rightarrow> string \<Rightarrow> mappings \<Rightarrow> bool \<Rightarrow> exn + graph" where
  "build_graph_for_title E cache title m include_infobox =
    (case cache title of
       None \<Rightarrow> Inl FileNotFoundError
     | Some parse_json \<Rightarrow>
        (let links = extract_links parse_json;
             externals = extract_externallinks parse_json;
             (g, p, r) = add_core_triples E {} title;
             g = g \<union> (\<lambda>lt. (r, SCHEMA ''relatedTo'', resource_uri E lt)) ` set links
         in case for_each (add_external E p r) g externals of
              Inl e \<Rightarrow> Inl e
            | Inr g \<Rightarrow>
                if include_infobox
                then for_each (\<lambda>g tmpl. apply_infobox E g r tmpl m) g
                       (find_mapped_templates parse_json m)
                else Inr g))"

section \<open>build\_kg\_chunked.py\<close>

text \<open>
  The state of the loop of \<open>build_kg_chunked\<close>: the current chunk, the counters and the files
  written so far (part number and content).
\<close>

record chunk_state =
  chunk :: graph
  processed :: int
  part :: int
  produced :: "(int \<times> graph) list"

definition flush :: "chunk_state \<Rightarrow> chunk_state" where
  "flush st =
    (if chunk st = {} then st
     else st\<lparr>produced := produced st @ [(part st, chunk st)], chunk := {}, part := part st + 1\<rparr>)"

text \<open>
  One title inside \<open>try\<close>: an exception of \<open>build_graph_for_title\<close> is caught, reported and the
  state left as it is; so is the ZeroDivisionError of \<open>processed % chunk_size\<close>, raised after the
  triples were added and the page counted.
\<close>

definition chunk_step ::
  "env \<Rightarrow> (string \<rightharpoonup> page_json) \<Rightarrow> mappings \<Rightarrow> bool \<Rightarrow> int \<Rightarrow> chunk_state \<Rightarrow> string
     \<Rightarrow> chunk_state" where
  "chunk_step E cache m include_infobox chunk_size st title =
    (case build_graph_for_title E cache title m include_infobox of
       Inl e \<Rightarrow> st
     | Inr g \<Rightarrow>
        (let st = st\<lparr>chunk := chunk st \<union> g, processed := processed st + 1\<rparr>
         in if chunk_size = 0 then st
            else if processed st mod chunk_size = 0 then flush st else st))"

fun chunk_loop ::
  "env \<Rightarrow> (string \<rightharpoonup> page_json) \<Rightarrow> mappings \<Rightarrow> bool \<Rightarrow> int \<Rightarrow> int option \<Rightarrow> chunk_state
     \<Rightarrow> string list \<Rightarrow> chunk_state" where
  "chunk_loop E cache m include_infobox chunk_size max_pages st [] = st"
| "chunk_loop E cache m include_infobox chunk_size max_pages st (title # titles) =
    (if (case max_pages of None \<Rightarrow> False | Some mx \<Rightarrow> processed st \<ge> mx) then st
     else chunk_loop E cache m include_infobox chunk_size max_pages
            (chunk_step E cache m include_infobox chunk_size st title) titles)"

text \<open>The result is the list of files written, here with their content.\<close>

definition build_kg_chunked ::
  "env \<Rightarrow> (string \<rightharpoonup> page_json) \<Rightarrow> string list \<Rightarrow> mappings \<Rightarrow> bool \<Rightarrow> int \<Rightarrow> int option
     \<Rightarrow> (int \<times> graph) list" where
  "build_kg_chunked E cache titles m include_infobox chunk_size max_pages =
     produced (flush (chunk_loop E cache m include_infobox chunk_size max_pages
       \<lparr>chunk = {}, processed = 0, part = 1, produced = []\<rparr> titles))"

section \<open>A sample configuration\<close>

text \<open>
  Concrete settings, field rules, mappings and cached pages on which the instances below are
  evaluated: a web-address field, a cross-reference field, and a field rule without
  \<open>property\<close>.
\<close>

definition sample_env :: env where
  "sample_env = \<lparr>KG_BASE = ''http://kg.example.org/'',
     TG_WIKI_BASE = ''https://wiki.example.org/wiki/'', bracketed_host_ok = (\<lambda>h. True)\<rparr>"

definition sample_fields :: "string \<rightharpoonup> field_rule" where
  "sample_fields =
     [''website'' \<mapsto> \<lparr>rule_property = Some ''http://schema.org/url'', rule_kind = None\<rparr>,
      ''race'' \<mapsto> \<lparr>rule_property = Some ''http://kg.example.org/prop/race'',
                    rule_kind = Some ''wikilink_or_literal''\<rparr>,
      ''realm'' \<mapsto> \<lparr>rule_property = Some ''http://kg.example.org/prop/realm'',
                     rule_kind = None\<rparr>,
      ''weapon'' \<mapsto> \<lparr>rule_property = None, rule_kind = Some ''literal''\<rparr>]"

definition sample_mappings :: mappings where
  "sample_mappings =
     [''infobox character'' \<mapsto> \<lparr>spec_class = Some ''http://schema.org/Person'',
        spec_tg_class = None, spec_fields = sample_fields\<rparr>]"

definition elrond_page :: page_json where
  "elrond_page = \<lparr>pj_templates =
       [\<lparr>tmpl_name = ''Infobox_Character '',
         tmpl_params = [(''race'', ''[[Half-elven|Half-elf]]''), (''weapon'', ''Hadhafang'')]\<rparr>],
     pj_links = [''Rivendell''], pj_externallinks = []\<rparr>"

definition gondor_page :: page_json where
  "gondor_page = \<lparr>pj_templates = [\<lparr>tmpl_name = ''quote'', tmpl_params = []\<rparr>],
     pj_links = [], pj_externallinks = []\<rparr>"

definition rivendell_page :: page_json where
  "rivendell_page = \<lparr>pj_templates = [], pj_links = [''Elrond'', ''Category:Places''],
     pj_externallinks = [''https://en.wikipedia.org/wiki/Rivendell'',
       ''https://example.org/maps/rivendell map.png'', ''see the atlas'']\<rparr>"

definition sample_cache :: "string \<rightharpoonup> page_json" where
  "sample_cache =
     [''Elrond'' \<mapsto> elrond_page, ''Gondor'' \<mapsto> gondor_page, ''Rivendell'' \<mapsto> rivendell_page]"

section \<open>Auxiliary notions\<close>

text \<open>The value of a hexadecimal digit, and the title as \<open>uri_escape_title\<close> normalizes it
  before escaping.\<close>

definition hex_val :: "char \<Rightarrow> nat" where
  "hex_val c = (let n = (of_char c :: nat) in if n < 58 then n - 48 else n - 55)"

definition normalized_title :: "string \<Rightarrow> string" where
  "normalized_title title = replace_chr CHR '' '' ''_'' (strip title)"

text \<open>Patterns without a capturing group.\<close>

fun nogrp :: "regex \<Rightarrow> bool" where
  "nogrp (Grp a) = False"
| "nogrp (Seq a b) = (nogrp a \<and> nogrp b)"
| "nogrp (Alt a b) = (nogrp a \<and> nogrp b)"
| "nogrp r = True"

text \<open>The five core identity statements of a page.\<close>

definition core_triples :: "env \<Rightarrow> string \<Rightarrow> graph" where
  "core_triples E title =
    {(page_uri E title, SCHEMA ''about'', resource_uri E title),
     (page_uri E title, SCHEMA ''url'', wiki_url E title),
     (resource_uri E title, SCHEMA ''url'', wiki_url E title),
     (resource_uri E title, RDFS_label, LangLiteral title ''en''),
     (page_uri E title, RDFS_label, LangLiteral title ''en'')}"

text \<open>The statement of one external link.\<close>

definition external_triple :: "env \<Rightarrow> string \<Rightarrow> string \<Rightarrow> triple" where
  "external_triple E title u =
    (case safe_iri E u of
       Inr (Some iri) \<Rightarrow>
         if contains (lower u) ''wikipedia.org/wiki/''
         then (resource_uri E title, OWL_sameAs, URIRef iri)
         else (page_uri E title, SCHEMA ''url'', URIRef iri)
     | _ \<Rightarrow> (page_uri E title, SCHEMA ''url'', Literal u))"





section \<open>Properties of the value classifier\<close>

text \<open>
  C5, amended: \<open>classify("[[Half-elven|Half-elf]] and [[Man]]")\<close> returns the linked titles
  \<open>["Half-elven", "Man"]\<close> and the literal parts \<open>["and"]\<close>: the connective left between the
  removed link tokens is kept as a literal part.
\<close>

theorem parse_value_half_elven:
  "parse_value ''[[Half-elven|Half-elf]] and [[Man]]'' = Inr ([''Half-elven'', ''Man''], [''and''])"
  by code_simp

text \<open>
  C5 as stated fails: the literal parts of that value are not empty.
\<close>

theorem parse_value_half_elven_not_empty:
  "parse_value ''[[Half-elven|Half-elf]] and [[Man]]'' \<noteq> Inr ([''Half-elven'', ''Man''], [])"
  by code_simp

section \<open>Percent-escaping of titles\<close>

lemma hex_val_table: "list_all (\<lambda>k. hex_val (hex_digit k) = k) [0..<16]"
  by code_simp

lemma hex_val_digit: "hex_val (hex_digit k) = k mod 16"
proof -
  have "k mod 16 \<in> set [0..<16]" by simp
  with hex_val_table have "hex_val (hex_digit (k mod 16)) = k mod 16"
    unfolding list_all_iff by blast
  then show ?thesis by (simp add: hex_digit_def)
qed

lemma utf8_bound: "b \<in> set (utf8 c) \<Longrightarrow> b < 256"
proof -
  assume b: "b \<in> set (utf8 c)"
  have "(of_char c :: nat) < 256" by simp
  then have "(of_char c :: nat) div 64 < 4" "(of_char c :: nat) mod 64 < 64" by arith+
  with b show "b < 256"
    by (auto simp: utf8_def Let_def split: if_splits)
qed

lemma utf8_nonempty: "utf8 c \<noteq> []"
  by (simp add: utf8_def Let_def)

lemma utf8_inj_step:
  assumes "utf8 c @ r = utf8 c' @ r'"
  shows "c = c' \<and> r = r'"
proof -
  define n m where "n = (of_char c :: nat)" and "m = (of_char c' :: nat)"
  have eq: "(if n < 128 then [n] else [192 + n div 64, 128 + n mod 64]) @ r
      = (if m < 128 then [m] else [192 + m div 64, 128 + m mod 64]) @ r'"
    using assms unfolding utf8_def Let_def n_def m_def .
  have b: "n < 256" "m < 256" by (simp_all add: n_def m_def)
  have "n = m \<and> r = r'"
  proof (cases "n < 128")
    case True
    show ?thesis
    proof (cases "m < 128")
      case True
      with \<open>n < 128\<close> eq show ?thesis by simp
    next
      case False
      with \<open>n < 128\<close> eq have "n = 192 + m div 64" by simp
      with \<open>n < 128\<close> show ?thesis by simp
    qed
  next
    case False
    show ?thesis
    proof (cases "m < 128")
      case True
      with \<open>\<not> n < 128\<close> eq have "m = 192 + n div 64" by simp
      with True show ?thesis by simp
    next
      case mf: False
      with False eq have e: "n div 64 = m div 64" "n mod 64 = m mod 64" "r = r'"
        by simp_all
      have "n = 64 * (n div 64) + n mod 64" by simp
      also have "\<dots> = 64 * (m div 64) + m mod 64" using e by simp
      also have "\<dots> = m" by simp
      finally show ?thesis using e by simp
    qed
  qed
  then show ?thesis by (simp add: n_def m_def)
qed

lemma utf8_concat_inj: "concat (map utf8 s) = concat (map utf8 s') \<Longrightarrow> s = s'"
proof (induction s arbitrary: s')
  case Nil
  then show ?case by (cases s') (simp_all add: utf8_nonempty)
next
  case (Cons c s)
  show ?case
  proof (cases s')
    case Nil
    with Cons.prems show ?thesis by (simp add: utf8_nonempty)
  next
    case (Cons c' t)
    with Cons.prems have "utf8 c @ concat (map utf8 s) = utf8 c' @ concat (map utf8 t)" by simp
    then have "c = c' \<and> concat (map utf8 s) = concat (map utf8 t)" by (rule utf8_inj_step)
    with Cons.IH Cons show ?thesis by simp
  qed
qed

lemma title_safe_always: "c \<in> set TITLE_SAFE \<Longrightarrow> always_safe c"
proof -
  have "list_all always_safe TITLE_SAFE" by code_simp
  then show "c \<in> set TITLE_SAFE \<Longrightarrow> always_safe c" by (simp add: list_all_iff)
qed

lemma always_safe_not_percent: "always_safe c \<Longrightarrow> c \<noteq> CHR ''%''"
  by (auto simp: always_safe_def)

lemma char_of_inj_256:
  assumes "(a::nat) < 256" "b < 256" "(char_of a :: char) = char_of b"
  shows "a = b"
proof -
  have "(of_char (char_of a :: char) :: nat) = of_char (char_of b :: char)"
    using assms(3) by simp
  then have "a mod 256 = b mod 256" by (simp add: of_char_of)
  with assms(1,2) show ?thesis by simp
qed

lemma hex_pair_inj:
  assumes "(a::nat) < 256" "b < 256"
    and "hex_digit (a div 16) = hex_digit (b div 16)" "hex_digit a = hex_digit b"
  shows "a = b"
proof -
  have "(a div 16) mod 16 = (b div 16) mod 16"
    using assms(3) hex_val_digit by metis
  moreover have "a div 16 < 16" "b div 16 < 16" using assms(1,2) by arith+
  ultimately have d: "a div 16 = b div 16" by simp
  have m: "a mod 16 = b mod 16" using assms(4) hex_val_digit by metis
  have "a = 16 * (a div 16) + a mod 16" by simp
  also have "\<dots> = 16 * (b div 16) + b mod 16" using d m by simp
  also have "\<dots> = b" by simp
  finally show ?thesis .
qed

lemma quote_byte_nonempty: "quote_byte safe b \<noteq> []"
  by (simp add: quote_byte_def)

lemma quote_byte_inj_step:
  assumes "a < 256" "b < 256"
    and "quote_byte TITLE_SAFE a @ r = quote_byte TITLE_SAFE b @ r'"
  shows "a = b \<and> r = r'"
proof -
  define sa where "sa = (a < 128 \<and> (always_safe (char_of a) \<or> char_of a \<in> set TITLE_SAFE))"
  define sb where "sb = (b < 128 \<and> (always_safe (char_of b) \<or> char_of b \<in> set TITLE_SAFE))"
  have qa: "quote_byte TITLE_SAFE a
      = (if sa then [char_of a] else [CHR ''%'', hex_digit (a div 16), hex_digit a])"
    by (simp add: quote_byte_def sa_def)
  have qb: "quote_byte TITLE_SAFE b
      = (if sb then [char_of b] else [CHR ''%'', hex_digit (b div 16), hex_digit b])"
    by (simp add: quote_byte_def sb_def)
  have pa: "sa \<Longrightarrow> (char_of a :: char) \<noteq> CHR ''%''"
    using title_safe_always always_safe_not_percent by (auto simp: sa_def)
  have pb: "sb \<Longrightarrow> (char_of b :: char) \<noteq> CHR ''%''"
    using title_safe_always always_safe_not_percent by (auto simp: sb_def)
  show ?thesis
  proof (cases sa)
    case True
    show ?thesis
    proof (cases sb)
      case sbt: True
      with True assms(3) qa qb have "(char_of a :: char) = char_of b" "r = r'" by simp_all
      with assms(1,2) show ?thesis using char_of_inj_256 by blast
    next
      case False
      with True assms(3) qa qb have "(char_of a :: char) = CHR ''%''" by simp
      with pa True show ?thesis by simp
    qed
  next
    case False
    show ?thesis
    proof (cases sb)
      case True
      with False assms(3) qa qb have "(char_of b :: char) = CHR ''%''" by simp
      with pb True show ?thesis by simp
    next
      case sbf: False
      with False assms(3) qa qb
      have "hex_digit (a div 16) = hex_digit (b div 16)" "hex_digit a = hex_digit b" "r = r'"
        by simp_all
      with assms(1,2) show ?thesis using hex_pair_inj by blast
    qed
  qed
qed

lemma quote_bytes_inj:
  "\<forall>b \<in> set bs. b < 256 \<Longrightarrow> \<forall>b \<in> set bs'. b < 256 \<Longrightarrow>
   concat (map (quote_byte TITLE_SAFE) bs) = concat (map (quote_byte TITLE_SAFE) bs') \<Longrightarrow>
   bs = bs'"
proof (induction bs arbitrary: bs')
  case Nil
  then show ?case by (cases bs') (simp_all add: quote_byte_nonempty)
next
  case (Cons a bs)
  show ?case
  proof (cases bs')
    case Nil
    with Cons.prems(3) show ?thesis by (simp add: quote_byte_nonempty)
  next
    case c: (Cons b cs)
    have ab: "a < 256" "b < 256" using Cons.prems(1,2) c by simp_all
    have "quote_byte TITLE_SAFE a @ concat (map (quote_byte TITLE_SAFE) bs)
        = quote_byte TITLE_SAFE b @ concat (map (quote_byte TITLE_SAFE) cs)"
      using Cons.prems(3) c by simp
    with ab have e: "a = b \<and> concat (map (quote_byte TITLE_SAFE) bs)
        = concat (map (quote_byte TITLE_SAFE) cs)" by (rule quote_byte_inj_step)
    have r: "\<forall>b \<in> set bs. b < 256" "\<forall>b \<in> set cs. b < 256"
      using Cons.prems(1,2) c by simp_all
    have "bs = cs" using Cons.IH[OF r] e by blast
    with e c show ?thesis by simp
  qed
qed

lemma quote_title_inj: "quote s TITLE_SAFE = quote s' TITLE_SAFE \<Longrightarrow> s = s'"
proof -
  assume q: "quote s TITLE_SAFE = quote s' TITLE_SAFE"
  have "\<forall>b \<in> set (concat (map utf8 s)). b < 256" "\<forall>b \<in> set (concat (map utf8 s')). b < 256"
    using utf8_bound by auto
  with q have "concat (map utf8 s) = concat (map utf8 s')"
    unfolding quote_def by (rule quote_bytes_inj[rotated 2])
  then show "s = s'" by (rule utf8_concat_inj)
qed

lemma uri_escape_title_inj:
  "uri_escape_title t1 = uri_escape_title t2 \<Longrightarrow> normalized_title t1 = normalized_title t2"
  unfolding uri_escape_title_def normalized_title_def Let_def by (rule quote_title_inj)

lemma always_safe_ascii: "always_safe c \<Longrightarrow> (of_char c :: nat) < 128"
  by (auto simp: always_safe_def Let_def)

lemma always_safe_not_space: "always_safe c \<Longrightarrow> \<not> isspace c"
  by (auto simp: always_safe_def isspace_def Let_def)

lemma quote_safe_char:
  assumes "always_safe c"
  shows "concat (map (quote_byte safe) (utf8 c)) = [c]"
proof -
  have "(of_char c :: nat) < 128" using assms by (rule always_safe_ascii)
  then show ?thesis using assms by (simp add: utf8_def quote_byte_def)
qed

lemma quote_safe_id: "list_all always_safe s \<Longrightarrow> quote s safe = s"
proof (induction s)
  case Nil
  then show ?case by (simp add: quote_def)
next
  case (Cons c s)
  then have "quote s safe = s" "always_safe c" by simp_all
  then show ?case using quote_safe_char[of c safe] by (simp add: quote_def)
qed

lemma dropWhile_none: "\<forall>c \<in> set s. \<not> P c \<Longrightarrow> dropWhile P s = s"
  by (cases s) simp_all

lemma strip_no_space: "\<forall>c \<in> set s. \<not> isspace c \<Longrightarrow> strip s = s"
  by (simp add: strip_def lstrip_def rstrip_def dropWhile_none)

lemma replace_chr_absent: "a \<notin> set s \<Longrightarrow> replace_chr a b s = s"
  by (induction s) (auto simp: replace_chr_def)

lemma uri_escape_title_safe:
  assumes "list_all always_safe (normalized_title t)"
  shows "uri_escape_title t = normalized_title t"
  using assms by (simp add: uri_escape_title_def normalized_title_def quote_safe_id)

lemma normalized_title_safe_id:
  assumes "list_all always_safe s"
  shows "normalized_title s = s"
proof -
  have ns: "\<forall>c \<in> set s. \<not> isspace c"
    using assms always_safe_not_space by (auto simp: list_all_iff)
  have "\<not> isspace c \<Longrightarrow> c \<noteq> CHR '' ''" for c by (auto simp: isspace_def)
  with ns have "CHR '' '' \<notin> set s" by blast
  with ns show ?thesis by (simp add: normalized_title_def strip_no_space replace_chr_absent)
qed

lemma uri_escape_title_idem_safe:
  assumes "list_all always_safe (normalized_title t)"
  shows "uri_escape_title (uri_escape_title t) = uri_escape_title t"
proof -
  let ?n = "normalized_title t"
  have e: "uri_escape_title t = ?n" using assms by (rule uri_escape_title_safe)
  have "normalized_title ?n = ?n" using assms by (rule normalized_title_safe_id)
  then have "list_all always_safe (normalized_title ?n)" using assms by simp
  then have "uri_escape_title ?n = normalized_title ?n" by (rule uri_escape_title_safe)
  with e \<open>normalized_title ?n = ?n\<close> show ?thesis by simp
qed

lemma hex_digit_no_space: "\<not> isspace (hex_digit k)"
proof -
  have t: "list_all (\<lambda>k. \<not> isspace (hex_digit k)) [0..<16]" by code_simp
  have "k mod 16 \<in> set [0..<16]" by simp
  with t have "\<not> isspace (hex_digit (k mod 16))" unfolding list_all_iff by blast
  then show ?thesis by (simp add: hex_digit_def)
qed

lemma quote_byte_title_no_space: "c \<in> set (quote_byte TITLE_SAFE b) \<Longrightarrow> \<not> isspace c"
proof -
  assume c: "c \<in> set (quote_byte TITLE_SAFE b)"
  have p: "\<not> isspace CHR ''%''" by (simp add: isspace_def)
  from c consider "always_safe c" | "c = CHR ''%''" | "c = hex_digit (b div 16)"
    | "c = hex_digit b"
    using title_safe_always by (auto simp: quote_byte_def split: if_splits)
  then show ?thesis
    using p hex_digit_no_space always_safe_not_space by cases auto
qed

lemma quote_title_no_space: "c \<in> set (quote s TITLE_SAFE) \<Longrightarrow> \<not> isspace c"
  using quote_byte_title_no_space by (auto simp: quote_def)

lemma normalized_title_no_space:
  assumes "\<forall>c \<in> set s. \<not> isspace c"
  shows "normalized_title s = s"
proof -
  have "isspace CHR '' ''" by (simp add: isspace_def)
  with assms have "CHR '' '' \<notin> set s" by blast
  with assms show ?thesis by (simp add: normalized_title_def strip_no_space replace_chr_absent)
qed

lemma quote_Cons:
  "quote (c # s) safe = concat (map (quote_byte safe) (utf8 c)) @ quote s safe"
  by (simp add: quote_def)

lemma quote_char_length: "1 \<le> length (concat (map (quote_byte safe) (utf8 c)))"
proof -
  obtain b bs where "utf8 c = b # bs" using utf8_nonempty[of c] by (cases "utf8 c") auto
  moreover have "1 \<le> length (quote_byte safe b)" by (simp add: quote_byte_def)
  ultimately show ?thesis by simp
qed

lemma quote_percent_length: "length (concat (map (quote_byte TITLE_SAFE) (utf8 CHR ''%''))) = 3"
  by code_simp

lemma quote_length: "length s \<le> length (quote s safe)"
proof (induction s)
  case Nil
  then show ?case by (simp add: quote_def)
next
  case (Cons c s)
  then show ?case using quote_char_length[of safe c] by (simp add: quote_Cons)
qed

lemma quote_percent_longer:
  "CHR ''%'' \<in> set s \<Longrightarrow> length s < length (quote s TITLE_SAFE)"
proof (induction s)
  case Nil
  then show ?case by simp
next
  case (Cons c s)
  show ?case
  proof (cases "c = CHR ''%''")
    case True
    then show ?thesis
      using quote_length[of s TITLE_SAFE] quote_percent_length by (simp add: quote_Cons)
  next
    case False
    with Cons.prems have "CHR ''%'' \<in> set s" by simp
    then have "length s < length (quote s TITLE_SAFE)" by (rule Cons.IH)
    then show ?thesis using quote_char_length[of TITLE_SAFE c] by (simp add: quote_Cons)
  qed
qed

lemma quote_unsafe_percent:
  assumes "\<not> always_safe c"
  shows "CHR ''%'' \<in> set (concat (map (quote_byte TITLE_SAFE) (utf8 c)))"
proof (cases "(of_char c :: nat) < 128")
  case True
  from assms have "c \<notin> set TITLE_SAFE" using title_safe_always by blast
  with assms True show ?thesis by (simp add: utf8_def quote_byte_def)
next
  case False
  then show ?thesis by (simp add: utf8_def quote_byte_def Let_def)
qed

lemma quote_not_all_safe_percent:
  "\<not> list_all always_safe s \<Longrightarrow> CHR ''%'' \<in> set (quote s TITLE_SAFE)"
proof (induction s)
  case Nil
  then show ?case by simp
next
  case (Cons c s)
  show ?case
  proof (cases "always_safe c")
    case True
    with Cons.prems have "\<not> list_all always_safe s" by simp
    then have "CHR ''%'' \<in> set (quote s TITLE_SAFE)" by (rule Cons.IH)
    then show ?thesis by (simp add: quote_Cons)
  next
    case False
    then show ?thesis using quote_unsafe_percent[of c] by (simp add: quote_Cons)
  qed
qed

lemma uri_escape_title_twice_differs:
  assumes "\<not> list_all always_safe (normalized_title t)"
  shows "uri_escape_title (uri_escape_title t) \<noteq> uri_escape_title t"
proof -
  define e where "e = uri_escape_title t"
  have e: "e = quote (normalized_title t) TITLE_SAFE"
    by (simp add: e_def uri_escape_title_def normalized_title_def)
  have "\<forall>c \<in> set e. \<not> isspace c" unfolding e using quote_title_no_space by blast
  then have "normalized_title e = e" by (rule normalized_title_no_space)
  then have ee: "uri_escape_title e = quote e TITLE_SAFE"
    by (simp add: uri_escape_title_def normalized_title_def)
  from assms have "CHR ''%'' \<in> set e" unfolding e by (rule quote_not_all_safe_percent)
  then have "length e < length (quote e TITLE_SAFE)" by (rule quote_percent_longer)
  then have "quote e TITLE_SAFE \<noteq> e" by auto
  with ee show ?thesis by (simp add: e_def)
qed

text \<open>
  C4, amended: identifier construction is deterministic and injective over normalized titles:
  two titles that differ after normalization (trimming, spaces to underscores) get different
  entity identifiers and different document identifiers. Applying the normalization and
  escaping to an escaped title gives the same string exactly when the normalized title
  consists of allow-listed characters (ASCII letters, digits, \<open>_.-~\<close>) only; otherwise the
  percent signs of the escaped title are escaped again.
\<close>

theorem entity_id_injective:
  "(normalized_title t1 \<noteq> normalized_title t2 \<longrightarrow>
      resource_uri E t1 \<noteq> resource_uri E t2 \<and> page_uri E t1 \<noteq> page_uri E t2)
   \<and> (uri_escape_title (uri_escape_title t) = uri_escape_title t
        \<longleftrightarrow> list_all always_safe (normalized_title t))"
  using uri_escape_title_inj[of t1 t2] uri_escape_title_idem_safe[of t]
    uri_escape_title_twice_differs[of t]
  by (auto simp: resource_uri_def page_uri_def)

text \<open>An instance: ``Minas Tirith'' and ``Minas Morgul''.\<close>

theorem entity_id_injective_witness:
  "normalized_title ''Minas Tirith'' \<noteq> normalized_title ''Minas Morgul''
   \<and> resource_uri sample_env ''Minas Tirith'' \<noteq> resource_uri sample_env ''Minas Morgul''
   \<and> page_uri sample_env ''Minas Tirith'' \<noteq> page_uri sample_env ''Minas Morgul''
   \<and> list_all always_safe (normalized_title ''Minas Tirith'')
   \<and> uri_escape_title (uri_escape_title ''Minas Tirith'') = uri_escape_title ''Minas Tirith''"
proof -
  have h1: "normalized_title ''Minas Tirith'' \<noteq> normalized_title ''Minas Morgul''"
    by code_simp
  have h2: "list_all always_safe (normalized_title ''Minas Tirith'')"
    by code_simp
  from entity_id_injective[of "''Minas Tirith''" "''Minas Morgul''" sample_env "''Minas Tirith''"]
    h1 h2 show ?thesis by blast
qed

text \<open>
  C4 as stated fails: escaping an escaped title escapes its percent signs again.
\<close>

theorem uri_escape_title_not_idempotent:
  "uri_escape_title (uri_escape_title ''Bilbo (hobbit)'') \<noteq> uri_escape_title ''Bilbo (hobbit)''"
  by code_simp

section \<open>Totality of the classifier and the normalizer\<close>

subsection \<open>The matcher\<close>

lemma ms_Seq_iff: "x \<in> set (ms (Seq a b) st) \<longleftrightarrow> (\<exists>m \<in> set (ms a st). x \<in> set (ms b m))"
  by simp

lemma ms_Atom_elem:
  "(g', s') \<in> set (ms (Atom p) (g, s)) \<Longrightarrow> g' = g \<and> (\<exists>x. s = x # s' \<and> p x)"
  by (cases s) (auto split: if_splits)

lemma ms_Star_elem:
  "(g', s') \<in> set (ms (Star p) (g, s)) \<Longrightarrow> g' = g \<and> (\<exists>w. s = w @ s' \<and> list_all p w)"
proof (induction s)
  case Nil
  then show ?case by simp
next
  case (Cons x xs)
  from Cons.prems consider "p x" "(g', s') \<in> set (ms (Star p) (g, xs))" | "s' = x # xs" "g' = g"
    by (auto split: if_splits)
  then show ?case
  proof cases
    case 1
    with Cons.IH obtain w where "g' = g" "xs = w @ s'" "list_all p w" by blast
    with 1 have "x # xs = (x # w) @ s' \<and> list_all p (x # w)" by simp
    with \<open>g' = g\<close> show ?thesis by blast
  next
    case 2
    then have "x # xs = [] @ s' \<and> list_all p []" by simp
    with 2 show ?thesis by blast
  qed
qed

lemma ms_Lazy_elem:
  "(g', s') \<in> set (ms (Lazy p) (g, s)) \<Longrightarrow> g' = g \<and> (\<exists>w. s = w @ s' \<and> list_all p w)"
proof (induction s)
  case Nil
  then show ?case by simp
next
  case (Cons x xs)
  from Cons.prems consider "p x" "(g', s') \<in> set (ms (Lazy p) (g, xs))" | "s' = x # xs" "g' = g"
    by (auto split: if_splits)
  then show ?case
  proof cases
    case 1
    with Cons.IH obtain w where "g' = g" "xs = w @ s'" "list_all p w" by blast
    with 1 have "x # xs = (x # w) @ s' \<and> list_all p (x # w)" by simp
    with \<open>g' = g\<close> show ?thesis by blast
  next
    case 2
    then have "x # xs = [] @ s' \<and> list_all p []" by simp
    with 2 show ?thesis by blast
  qed
qed

lemma ms_Plus_elem:
  assumes "(g', s') \<in> set (ms (Plus p) (g, s))"
  shows "g' = g \<and> (\<exists>w. s = w @ s' \<and> w \<noteq> [] \<and> list_all p w)"
proof -
  from assms obtain m where m: "m \<in> set (ms (Atom p) (g, s))" "(g', s') \<in> set (ms (Star p) m)"
    unfolding Plus_def ms_Seq_iff by blast
  obtain g1 s1 where m1: "m = (g1, s1)" by (cases m)
  with m(1) obtain x where x: "g1 = g" "s = x # s1" "p x" using ms_Atom_elem by blast
  from m(2) m1 obtain w where w: "g' = g1" "s1 = w @ s'" "list_all p w"
    using ms_Star_elem by blast
  from x w have "s = (x # w) @ s' \<and> x # w \<noteq> [] \<and> list_all p (x # w)" by simp
  with x w show ?thesis by blast
qed

lemma ms_nogrp: "nogrp r \<Longrightarrow> x \<in> set (ms r st) \<Longrightarrow> fst x = fst st"
proof (induction r arbitrary: st x)
  case Eps
  then show ?case by simp
next
  case (Atom p)
  then show ?case using ms_Atom_elem[of "fst x" "snd x" p "fst st" "snd st"] by simp
next
  case (Seq a b)
  from Seq.prems obtain m where "m \<in> set (ms a st)" "x \<in> set (ms b m)"
    unfolding ms_Seq_iff by blast
  with Seq.IH Seq.prems(1) show ?case by simp
next
  case (Alt a b)
  from Alt.prems have "x \<in> set (ms a st) \<or> x \<in> set (ms b st)" by simp
  with Alt.IH Alt.prems(1) show ?case by fastforce
next
  case (Star p)
  then show ?case using ms_Star_elem[of "fst x" "snd x" p "fst st" "snd st"] by simp
next
  case (Lazy p)
  then show ?case using ms_Lazy_elem[of "fst x" "snd x" p "fst st" "snd st"] by simp
next
  case (Grp a)
  then show ?case by simp
next
  case Dollar
  then show ?case by (cases st) (auto split: if_splits)
qed

lemma ms_Chr_elem:
  "(g', s') \<in> set (ms (Chr c) (g, s)) \<Longrightarrow> g' = g \<and> s = c # s'"
  unfolding Chr_def using ms_Atom_elem by blast

lemma ms_Grp_Plus_elem:
  assumes "(g', s') \<in> set (ms (Grp (Plus p)) (g, s))"
  shows "\<exists>w. g' = Some w \<and> s = w @ s' \<and> w \<noteq> [] \<and> list_all p w"
proof -
  from assms obtain g1 where g1: "(g1, s') \<in> set (ms (Plus p) (g, s))"
    and g': "g' = Some (take (length s - length s') s)"
    by auto
  from g1 obtain w where w: "s = w @ s'" "w \<noteq> []" "list_all p w"
    using ms_Plus_elem by blast
  then have "take (length s - length s') s = w" by simp
  with g' w show ?thesis by blast
qed

text \<open>Every match of \<open>WIKI_LINK_RE\<close> sets group 1, to a text without \<open>]\<close>, \<open>|\<close> and \<open>#\<close>.\<close>

lemma ms_wiki_link_group:
  assumes "(g', s') \<in> set (ms WIKI_LINK_RE (g, s))"
  shows "\<exists>w. g' = Some w \<and> w \<noteq> []
          \<and> list_all (\<lambda>c. c \<noteq> CHR '']'' \<and> c \<noteq> CHR ''|'' \<and> c \<noteq> CHR ''#'') w"
proof -
  define tail where "tail = Seq (Opt (Cat [Chr CHR ''|'', Plus (\<lambda>c. c \<noteq> CHR '']'')]))
    (Seq (Chr CHR '']'') (Seq (Chr CHR '']'') Eps))"
  define p where "p = (\<lambda>c. c \<noteq> CHR '']'' \<and> c \<noteq> CHR ''|'' \<and> c \<noteq> CHR ''#'')"
  have re: "WIKI_LINK_RE = Seq (Chr CHR ''['') (Seq (Chr CHR ''['') (Seq (Grp (Plus p)) tail))"
    by (simp add: WIKI_LINK_RE_def Cat_def tail_def p_def)
  have ng: "nogrp tail"
    by (simp add: tail_def Opt_def Cat_def Chr_def Plus_def)
  from assms obtain m1 m2 m3 where
    m1: "m1 \<in> set (ms (Chr CHR ''['') (g, s))" and
    m2: "m2 \<in> set (ms (Chr CHR ''['') m1)" and
    m3: "m3 \<in> set (ms (Grp (Plus p)) m2)" and
    m4: "(g', s') \<in> set (ms tail m3)"
    unfolding re ms_Seq_iff by blast
  obtain g3 s3 where e3: "m3 = (g3, s3)" by (cases m3)
  obtain g2 s2 where e2: "m2 = (g2, s2)" by (cases m2)
  from m3 e3 e2 obtain w where "g3 = Some w" "w \<noteq> []" "list_all p w"
    using ms_Grp_Plus_elem by blast
  moreover from ms_nogrp[OF ng m4] e3 have "g' = g3" by simp
  ultimately show ?thesis unfolding p_def by blast
qed

lemma finditer_groups:
  "\<forall>g' s' s. (g', s') \<in> set (ms r (None, s)) \<longrightarrow> P g' \<Longrightarrow>
   (m, g) \<in> set (finditer r s) \<Longrightarrow> P g"
proof (induction r s rule: finditer.induct)
  case (1 r)
  show ?case
  proof (cases "ms r (None, [])")
    case Nil
    with "1.prems"(2) show ?thesis by simp
  next
    case (Cons a rest)
    obtain g1 s1 where a: "a = (g1, s1)" by (cases a)
    with Cons have "(g1, s1) \<in> set (ms r (None, []))" by simp
    with "1.prems"(1) have "P g1" by blast
    moreover from "1.prems"(2) Cons a have "g = g1" by simp
    ultimately show ?thesis by simp
  qed
next
  case (2 r x xs)
  show ?case
  proof (cases "ms r (None, x # xs)")
    case Nil
    with "2.prems"(2) have "(m, g) \<in> set (finditer r xs)" by simp
    with "2.IH"(1)[OF Nil "2.prems"(1)] show ?thesis by blast
  next
    case (Cons a rest)
    obtain g1 s1 where a: "a = (g1, s1)" by (cases a)
    with Cons have "(g1, s1) \<in> set (ms r (None, x # xs))" by simp
    with "2.prems"(1) have h: "P g1" by blast
    from "2.prems"(2) Cons a consider "g = g1"
      | "(m, g) \<in> set (finditer r (if length s1 \<le> length xs then s1 else xs))"
      by auto
    then show ?thesis
    proof cases
      case 1
      with h show ?thesis by simp
    next
      case 2
      with "2.IH"(2)[OF Cons a[symmetric] "2.prems"(1)] show ?thesis by blast
    qed
  qed
qed

lemma finditer_wiki_link_group:
  assumes "(m, g) \<in> set (finditer WIKI_LINK_RE s)"
  shows "\<exists>w. g = Some w
    \<and> list_all (\<lambda>c. c \<noteq> CHR '']'' \<and> c \<noteq> CHR ''|'' \<and> c \<noteq> CHR ''#'') w"
proof (rule finditer_groups[OF _ assms])
  show "\<forall>g' s' s. (g', s') \<in> set (ms WIKI_LINK_RE (None, s)) \<longrightarrow>
      (\<exists>w. g' = Some w
        \<and> list_all (\<lambda>c. c \<noteq> CHR '']'' \<and> c \<noteq> CHR ''|'' \<and> c \<noteq> CHR ''#'') w)"
    using ms_wiki_link_group by blast
qed


subsection \<open>Totality\<close>

lemma collect_group1:
  "\<forall>x \<in> set xs. snd x \<noteq> None \<Longrightarrow>
   collect (map group1_strip xs) = Inr (map (\<lambda>x. strip (the (snd x))) xs)"
proof (induction xs)
  case Nil
  then show ?case by simp
next
  case (Cons x xs)
  obtain m g where x: "x = (m, g)" by (cases x)
  with Cons.prems obtain w where "g = Some w" by auto
  with x Cons show ?case by simp
qed

lemma extract_wikilinks_eq:
  "extract_wikilinks text
     = Inr (map (\<lambda>x. strip (the (snd x))) (finditer WIKI_LINK_RE text))"
proof -
  have "\<forall>x \<in> set (finditer WIKI_LINK_RE text). snd x \<noteq> None"
  proof
    fix x assume "x \<in> set (finditer WIKI_LINK_RE text)"
    then have "(fst x, snd x) \<in> set (finditer WIKI_LINK_RE text)" by simp
    then show "snd x \<noteq> None" using finditer_wiki_link_group by blast
  qed
  then show ?thesis unfolding extract_wikilinks_def by (rule collect_group1)
qed

lemma parse_value_returns: "\<exists>linked lits. parse_value text = Inr (linked, lits)"
  by (simp add: parse_value_def extract_wikilinks_eq Let_def)

lemma safe_iri_returns: "\<exists>res. safe_iri E u = Inr res"
  by (simp add: safe_iri_def Let_def split: sum.splits)

lemma normalize_url_returns: "\<exists>res. normalize_url E u = Inr res"
  using safe_iri_returns by (simp add: normalize_url_def Let_def)

text \<open>
  C6: the value classifier and the URL normalizer return for every string: \<open>parse_value\<close>
  returns a pair of lists (group 1 of a link match is always there to be stripped), and
  \<open>safe_iri\<close> and \<open>normalize_url\<close> return an identifier or the null result; whatever the
  \<open>try\<close> block of \<open>safe_iri\<close> raises is caught and becomes the null result.
\<close>

theorem classifier_and_normalizer_never_raise:
  "(\<exists>linked lits. parse_value text = Inr (linked, lits))
   \<and> (\<exists>res. safe_iri E u = Inr res)
   \<and> (\<exists>res. normalize_url E u = Inr res)
   \<and> (strip u \<noteq> [] \<and> safe_iri_try E (strip u) = Inl e \<longrightarrow> safe_iri E u = Inr None)"
  using parse_value_returns safe_iri_returns[of E u] normalize_url_returns[of E u]
  by (simp add: safe_iri_def Let_def)

text \<open>
  An instance: the authority of \<open>http://[::1/x\<close> has a bracket without its partner, \<open>urlsplit\<close>
  raises ValueError and \<open>safe_iri\<close> returns the null result.
\<close>

theorem classifier_and_normalizer_never_raise_witness:
  "strip ''http://[::1/x'' \<noteq> []
   \<and> safe_iri_try sample_env (strip ''http://[::1/x'') = Inl ValueError
   \<and> safe_iri sample_env ''http://[::1/x'' = Inr None
   \<and> (\<exists>res. normalize_url sample_env ''http://[::1/x'' = Inr res)
   \<and> (\<exists>linked lits. parse_value ''[[Gondor]]'' = Inr (linked, lits))"
proof -
  have h1: "strip ''http://[::1/x'' \<noteq> []" by code_simp
  have h2: "safe_iri_try sample_env (strip ''http://[::1/x'') = Inl ValueError" by code_simp
  from classifier_and_normalizer_never_raise
    [of "''[[Gondor]]''" sample_env "''http://[::1/x''" ValueError] h1 h2
  show ?thesis by blast
qed

section \<open>The field mapper\<close>

subsection \<open>The loops of the field mapper\<close>

lemma add_url_eq:
  "add_url E r prop g u =
     Inr (g \<union> (\<lambda>nu. (r, prop, URIRef nu)) ` {nu. nu \<noteq> [] \<and> normalize_url E u = Inr (Some nu)})"
proof -
  obtain res where res: "normalize_url E u = Inr res" using normalize_url_returns by blast
  show ?thesis
  proof (cases res)
    case None
    with res show ?thesis by (simp add: add_url_def)
  next
    case (Some nu)
    with res show ?thesis by (auto simp: add_url_def)
  qed
qed

lemma for_each_add_url:
  "for_each (add_url E r prop) g us =
     Inr (g \<union> (\<lambda>nu. (r, prop, URIRef nu))
        ` {nu. nu \<noteq> [] \<and> (\<exists>u \<in> set us. normalize_url E u = Inr (Some nu))})"
proof (induction us arbitrary: g)
  case Nil
  then show ?case by simp
next
  case (Cons u us)
  have "for_each (add_url E r prop) g (u # us) = for_each (add_url E r prop)
      (g \<union> (\<lambda>nu. (r, prop, URIRef nu)) ` {nu. nu \<noteq> [] \<and> normalize_url E u = Inr (Some nu)})
      us"
    by (simp add: add_url_eq)
  also have "\<dots> = Inr ((g \<union> (\<lambda>nu. (r, prop, URIRef nu))
        ` {nu. nu \<noteq> [] \<and> normalize_url E u = Inr (Some nu)})
      \<union> (\<lambda>nu. (r, prop, URIRef nu))
        ` {nu. nu \<noteq> [] \<and> (\<exists>u \<in> set us. normalize_url E u = Inr (Some nu))})"
    by (rule Cons.IH)
  also have "\<dots> = Inr (g \<union> (\<lambda>nu. (r, prop, URIRef nu))
        ` {nu. nu \<noteq> [] \<and> (\<exists>u \<in> set (u # us). normalize_url E u = Inr (Some nu))})"
    by auto
  finally show ?case .
qed

lemma apply_param_url:
  assumes "field_rules (lower (strip name)) = Some rule"
    and "rule_property rule = Some ''http://schema.org/url''"
    and "strip val \<noteq> []"
  shows "apply_param E r field_rules g (name, val) =
     Inr (g \<union> (\<lambda>nu. (r, URIRef ''http://schema.org/url'', URIRef nu))
        ` {nu. nu \<noteq> [] \<and>
            (\<exists>u \<in> set (if extract_urls (strip val) = [] then [strip val]
                         else extract_urls (strip val)).
               normalize_url E u = Inr (Some nu))})"
  using assms
  by (simp add: apply_param_def Let_def for_each_add_url add_url_eq)

lemma apply_param_auto:
  assumes "field_rules (lower (strip name)) = Some rule"
    and "rule_property rule = Some property"
    and "property \<noteq> ''http://schema.org/url''"
    and "rule_kind rule = None \<or> rule_kind rule = Some ''auto''
         \<or> rule_kind rule = Some ''wikilink_or_literal''"
    and "strip val \<noteq> []"
    and "parse_value (strip val) = Inr (linked, lits)"
  shows "apply_param E r field_rules g (name, val) =
     Inr (g \<union> auto_triples E r (URIRef property) (strip val) linked lits)"
  using assms
  by (auto simp: apply_param_def Let_def)


subsection \<open>Stripped strings and the namespace test\<close>

lemma rstrip_keeps_head:
  assumes "l = [] \<or> \<not> P (hd l)"
  shows "dropWhile P (rev (dropWhile P (rev l))) = rev (dropWhile P (rev l))"
proof -
  define k where "k = rev (dropWhile P (rev l))"
  have "dropWhile P k = k"
  proof (cases k)
    case Nil
    then show ?thesis by simp
  next
    case (Cons x xs)
    have "k @ rev (takeWhile P (rev l)) = rev (takeWhile P (rev l) @ dropWhile P (rev l))"
      unfolding k_def by (simp only: rev_append)
    also have "\<dots> = rev (rev l)" by (simp only: takeWhile_dropWhile_id)
    also have "\<dots> = l" by simp
    finally have "\<exists>ws. l = k @ ws" by metis
    then obtain ws where "l = (x # xs) @ ws" using Cons by auto
    then have "hd l = x" "l \<noteq> []" by simp_all
    with assms have "\<not> P x" by simp
    with Cons show ?thesis by simp
  qed
  then show ?thesis by (simp only: k_def)
qed

lemma strip_strip: "strip (strip s) = strip s"
proof -
  define l where "l = dropWhile isspace s"
  have h: "l = [] \<or> \<not> isspace (hd l)"
    unfolding l_def by (metis hd_dropWhile)
  have "lstrip (rstrip l) = rstrip l"
    unfolding lstrip_def rstrip_def using h by (rule rstrip_keeps_head)
  moreover have "rstrip (rstrip l) = rstrip l"
    by (simp add: rstrip_def dropWhile_idem)
  ultimately show ?thesis by (simp add: strip_def lstrip_def l_def)
qed

lemma parse_value_linked_stripped:
  assumes "parse_value text = Inr (linked, lits)" "t \<in> set linked"
  shows "strip t = t"
proof -
  from assms(1) have "linked = map (\<lambda>x. strip (the (snd x))) (finditer WIKI_LINK_RE text)"
    by (simp add: parse_value_def extract_wikilinks_eq Let_def)
  with assms(2) show ?thesis by (auto simp: strip_strip)
qed

lemma parse_value_lits_nonempty:
  assumes "parse_value text = Inr (linked, lits)" "l \<in> set lits"
  shows "l \<noteq> []"
proof -
  from assms(1) obtain c where "lits = (if c \<noteq> [] then split_listish c else [])"
    by (auto simp: parse_value_def extract_wikilinks_eq Let_def)
  with assms(2) show ?thesis
    by (auto simp: split_listish_def Let_def split: if_splits)
qed

lemma replace_chr_map: "replace_chr a [b] s = map (\<lambda>c. if c = a then b else c) s"
  by (induction s) (simp_all add: replace_chr_def)

lemma startswith_lower_underscore:
  "CHR '' '' \<notin> set p \<Longrightarrow> CHR ''_'' \<notin> set p \<Longrightarrow>
   startswith (lower (map (\<lambda>c. if c = CHR '' '' then CHR ''_'' else c) t)) p
     = startswith (lower t) p"
proof (induction p arbitrary: t)
  case Nil
  then show ?case by simp
next
  case (Cons c p)
  have sp: "lower_chr CHR '' '' = CHR '' ''" "lower_chr CHR ''_'' = CHR ''_''"
    by (simp_all add: lower_chr_def)
  show ?case
  proof (cases t)
    case Nil
    then show ?thesis by (simp add: lower_def)
  next
    case (Cons x xs)
    with Cons.prems Cons.IH[of xs] sp show ?thesis
      by (auto simp: lower_def)
  qed
qed

lemma link_ok_underscore:
  "link_ok (map (\<lambda>c. if c = CHR '' '' then CHR ''_'' else c) t) = link_ok t"
proof -
  have "list_all (\<lambda>p. CHR '' '' \<notin> set p \<and> CHR ''_'' \<notin> set p) BAD_LINK_PREFIXES"
    by code_simp
  then have "\<forall>p \<in> set BAD_LINK_PREFIXES.
      startswith (lower (map (\<lambda>c. if c = CHR '' '' then CHR ''_'' else c) t)) p
        = startswith (lower t) p"
    using startswith_lower_underscore by (simp add: list_all_iff)
  then show ?thesis
    by (simp add: link_ok_def startswith_any_def list_ex_iff)
qed

lemma resource_uri_link_ok:
  assumes "strip t = t" "strip t' = t'" "resource_uri E t = resource_uri E t'"
  shows "link_ok t = link_ok t'"
proof -
  from assms(3) have "uri_escape_title t = uri_escape_title t'"
    by (simp add: resource_uri_def)
  then have "normalized_title t = normalized_title t'" by (rule uri_escape_title_inj)
  with assms(1,2) have "map (\<lambda>c. if c = CHR '' '' then CHR ''_'' else c) t
      = map (\<lambda>c. if c = CHR '' '' then CHR ''_'' else c) t'"
    by (simp add: normalized_title_def replace_chr_map)
  then show ?thesis using link_ok_underscore[of t] link_ok_underscore[of t'] by simp
qed

lemma dropped_link_not_emitted:
  assumes "parse_value raw = Inr (linked, lits)" "t \<in> set linked" "\<not> link_ok t"
  shows "(r, prop, resource_uri E t) \<notin> auto_triples E r prop raw' linked lits"
proof
  assume "(r, prop, resource_uri E t) \<in> auto_triples E r prop raw' linked lits"
  then obtain t' where t': "t' \<in> set linked" "link_ok t'" "resource_uri E t = resource_uri E t'"
    by (auto simp: auto_triples_def resource_uri_def split: if_splits)
  from assms(1,2) t'(1) have "strip t = t" "strip t' = t'"
    using parse_value_linked_stripped by blast+
  then have "link_ok t = link_ok t'" using t'(3) by (rule resource_uri_link_ok)
  with assms(3) t'(2) show False by simp
qed

text \<open>
  C2, amended: for a field rule whose target predicate is \<open>http://schema.org/url\<close> the mapper
  scans the raw value for embedded \<open>http(s)://\<close> substrings (each ends at the first whitespace
  or \<open>]\<close>), or takes the whole value when there is none, and emits one IRI statement per
  successfully normalized URL and nothing else, so never a plain-text literal. The raw value
  \<open>see http://example.com/a b and more\<close> yields exactly one statement, with object
  \<open>http://example.com/a\<close>; the raw value \<open>not a url\<close> yields no statement.
\<close>

theorem url_field_emits_iris:
  assumes "field_rules (lower (strip name)) = Some rule"
    and "rule_property rule = Some ''http://schema.org/url''"
    and "strip val \<noteq> []"
  shows "apply_param E r field_rules g (name, val) =
       Inr (g \<union> (\<lambda>nu. (r, URIRef ''http://schema.org/url'', URIRef nu))
          ` {nu. nu \<noteq> [] \<and>
              (\<exists>u \<in> set (if extract_urls (strip val) = [] then [strip val]
                           else extract_urls (strip val)).
                 normalize_url E u = Inr (Some nu))})
     \<and> (strip val = ''see http://example.com/a b and more'' \<longrightarrow>
          apply_param E r field_rules g (name, val) =
            Inr (insert (r, URIRef ''http://schema.org/url'', URIRef ''http://example.com/a'') g))
     \<and> (strip val = ''not a url'' \<longrightarrow> apply_param E r field_rules g (name, val) = Inr g)"
proof -
  note gen = apply_param_url[where field_rules = field_rules and name = name and rule = rule
      and val = val and E = E and r = r and g = g, OF assms]
  have e1: "extract_urls ''see http://example.com/a b and more'' = [''http://example.com/a'']"
    by code_simp
  have n1: "normalize_url E ''http://example.com/a'' = Inr (Some ''http://example.com/a'')"
    by code_simp
  have e2: "extract_urls ''not a url'' = []"
    by code_simp
  have n2: "normalize_url E ''not a url'' = Inr None"
    by code_simp
  have c1: "apply_param E r field_rules g (name, val) =
      Inr (insert (r, URIRef ''http://schema.org/url'', URIRef ''http://example.com/a'') g)"
    if "strip val = ''see http://example.com/a b and more''"
    unfolding gen that e1 using n1 by auto
  have c2: "apply_param E r field_rules g (name, val) = Inr g"
    if "strip val = ''not a url''"
    unfolding gen that e2 using n2 by auto
  from gen c1 c2 show ?thesis by blast
qed

text \<open>An instance: the web-address field of the sample rules.\<close>

theorem url_field_emits_iris_witness:
  "sample_fields (lower (strip ''Website''))
     = Some \<lparr>rule_property = Some ''http://schema.org/url'', rule_kind = None\<rparr>
   \<and> strip '' see http://example.com/a b and more'' = ''see http://example.com/a b and more''
   \<and> apply_param sample_env (URIRef ''http://kg.example.org/resource/Gondor'') sample_fields {}
        (''Website'', '' see http://example.com/a b and more'')
       = Inr {(URIRef ''http://kg.example.org/resource/Gondor'',
               URIRef ''http://schema.org/url'', URIRef ''http://example.com/a'')}"
proof -
  have h1: "sample_fields (lower (strip ''Website''))
     = Some \<lparr>rule_property = Some ''http://schema.org/url'', rule_kind = None\<rparr>"
    by code_simp
  have h2: "rule_property \<lparr>rule_property = Some ''http://schema.org/url'', rule_kind = None\<rparr>
     = Some ''http://schema.org/url''"
    by simp
  have h3: "strip '' see http://example.com/a b and more''
     = ''see http://example.com/a b and more''"
    by code_simp
  then have h4: "strip '' see http://example.com/a b and more'' \<noteq> []"
    by simp
  from url_field_emits_iris[where field_rules = sample_fields and name = "''Website''"
      and val = "'' see http://example.com/a b and more''" and E = sample_env
      and r = "URIRef ''http://kg.example.org/resource/Gondor''" and g = "{}", OF h1 h2 h4] h3
  have "apply_param sample_env (URIRef ''http://kg.example.org/resource/Gondor'') sample_fields {}
        (''Website'', '' see http://example.com/a b and more'')
       = Inr (insert (URIRef ''http://kg.example.org/resource/Gondor'',
               URIRef ''http://schema.org/url'', URIRef ''http://example.com/a'') {})"
    by blast
  with h1 h3 show ?thesis by simp
qed

text \<open>
  C2 as stated fails: the object of the statement for
  \<open>see http://example.com/a b and more\<close> is not \<open>http://example.com/a%20b\<close>.
\<close>

theorem url_field_example_object:
  "apply_param sample_env (URIRef ''http://kg.example.org/resource/Gondor'') sample_fields {}
        (''Website'', ''see http://example.com/a b and more'')
     \<noteq> Inr {(URIRef ''http://kg.example.org/resource/Gondor'',
              URIRef ''http://schema.org/url'', URIRef ''http://example.com/a%20b'')}"
  by code_simp

text \<open>
  C1, amended: for every non-empty (post-trim) template parameter whose lowercased key matches
  a field rule of kind \<open>wikilink_or_literal\<close> or \<open>auto\<close> (the default) with a predicate other than
  \<open>http://schema.org/url\<close>, the Field Mapper emits one cross-reference statement per linked title
  that is not empty and does not start with a non-content namespace prefix, one
  plain-text-literal statement per literal part, and, if the classifier returns both lists
  empty, a single literal statement of the stripped raw value. At least one statement is
  emitted unless there is no literal part and every linked title of a non-empty list is
  dropped.
\<close>

theorem auto_field_statements:
  assumes "field_rules (lower (strip name)) = Some rule"
    and "rule_property rule = Some property"
    and "property \<noteq> ''http://schema.org/url''"
    and "rule_kind rule = None \<or> rule_kind rule = Some ''auto''
         \<or> rule_kind rule = Some ''wikilink_or_literal''"
    and "strip val \<noteq> []"
  shows "\<exists>linked lits emitted.
      parse_value (strip val) = Inr (linked, lits)
    \<and> emitted =
        (\<lambda>t. (r, URIRef property, resource_uri E t))
          ` {t \<in> set linked. t \<noteq> [] \<and> \<not> startswith_any (lower t) BAD_LINK_PREFIXES}
        \<union> (\<lambda>lit. (r, URIRef property, Literal lit)) ` set lits
        \<union> (if linked = [] \<and> lits = []
           then {(r, URIRef property, Literal (strip_markup (strip val)))} else {})
    \<and> apply_param E r field_rules g (name, val) = Inr (g \<union> emitted)
    \<and> (emitted = {} \<longleftrightarrow>
         linked \<noteq> [] \<and> lits = []
         \<and> (\<forall>t \<in> set linked. t = [] \<or> startswith_any (lower t) BAD_LINK_PREFIXES))"
proof -
  obtain linked lits where pv: "parse_value (strip val) = Inr (linked, lits)"
    using parse_value_returns by blast
  define emitted where "emitted =
        (\<lambda>t. (r, URIRef property, resource_uri E t))
          ` {t \<in> set linked. t \<noteq> [] \<and> \<not> startswith_any (lower t) BAD_LINK_PREFIXES}
        \<union> (\<lambda>lit. (r, URIRef property, Literal lit)) ` set lits
        \<union> (if linked = [] \<and> lits = []
           then {(r, URIRef property, Literal (strip_markup (strip val)))} else {})"
  have ne: "filter (\<lambda>lit. lit \<noteq> []) lits = lits"
    using parse_value_lits_nonempty[OF pv] by (simp add: filter_id_conv)
  have at: "auto_triples E r (URIRef property) (strip val) linked lits = emitted"
    unfolding auto_triples_def emitted_def ne by (auto simp: link_ok_def)
  have ap: "apply_param E r field_rules g (name, val) = Inr (g \<union> emitted)"
    using apply_param_auto[where field_rules = field_rules and name = name and rule = rule
      and val = val and E = E and r = r and g = g, OF assms pv] at by simp
  have em: "emitted = {} \<longleftrightarrow>
         linked \<noteq> [] \<and> lits = []
         \<and> (\<forall>t \<in> set linked. t = [] \<or> startswith_any (lower t) BAD_LINK_PREFIXES)"
    unfolding emitted_def by auto
  show ?thesis
    by (intro exI conjI) (rule pv, rule emitted_def, rule ap, rule em)
qed

text \<open>An instance: the value \<open>[[Elves]], Men\<close> of the cross-reference field of the sample rules.\<close>

theorem auto_field_statements_witness:
  "sample_fields (lower (strip ''Race''))
     = Some \<lparr>rule_property = Some ''http://kg.example.org/prop/race'',
             rule_kind = Some ''wikilink_or_literal''\<rparr>
   \<and> strip ''[[Elves]], Men'' \<noteq> []
   \<and> (\<exists>linked lits emitted.
        parse_value (strip ''[[Elves]], Men'') = Inr (linked, lits)
      \<and> emitted =
          (\<lambda>t. (URIRef ''r'', URIRef ''http://kg.example.org/prop/race'',
                 resource_uri sample_env t))
            ` {t \<in> set linked. t \<noteq> [] \<and> \<not> startswith_any (lower t) BAD_LINK_PREFIXES}
          \<union> (\<lambda>lit. (URIRef ''r'', URIRef ''http://kg.example.org/prop/race'', Literal lit))
            ` set lits
          \<union> (if linked = [] \<and> lits = []
             then {(URIRef ''r'', URIRef ''http://kg.example.org/prop/race'',
                    Literal (strip_markup (strip ''[[Elves]], Men'')))} else {})
      \<and> apply_param sample_env (URIRef ''r'') sample_fields {} (''Race'', ''[[Elves]], Men'')
          = Inr ({} \<union> emitted)
      \<and> (emitted = {} \<longleftrightarrow>
           linked \<noteq> [] \<and> lits = []
           \<and> (\<forall>t \<in> set linked. t = [] \<or> startswith_any (lower t) BAD_LINK_PREFIXES)))"
proof -
  have h1: "sample_fields (lower (strip ''Race''))
     = Some \<lparr>rule_property = Some ''http://kg.example.org/prop/race'',
             rule_kind = Some ''wikilink_or_literal''\<rparr>"
    by code_simp
  have h2: "rule_property \<lparr>rule_property = Some ''http://kg.example.org/prop/race'',
             rule_kind = Some ''wikilink_or_literal''\<rparr> = Some ''http://kg.example.org/prop/race''"
    by simp
  have h3: "''http://kg.example.org/prop/race'' \<noteq> ''http://schema.org/url''"
    by simp
  have h4: "rule_kind \<lparr>rule_property = Some ''http://kg.example.org/prop/race'',
             rule_kind = Some ''wikilink_or_literal''\<rparr> = None
     \<or> rule_kind \<lparr>rule_property = Some ''http://kg.example.org/prop/race'',
             rule_kind = Some ''wikilink_or_literal''\<rparr> = Some ''auto''
     \<or> rule_kind \<lparr>rule_property = Some ''http://kg.example.org/prop/race'',
             rule_kind = Some ''wikilink_or_literal''\<rparr> = Some ''wikilink_or_literal''"
    by simp
  have h5: "strip ''[[Elves]], Men'' \<noteq> []"
    by code_simp
  note inst = auto_field_statements[where field_rules = sample_fields and name = "''Race''"
      and val = "''[[Elves]], Men''" and E = sample_env and r = "URIRef ''r''" and g = "{}",
      OF h1 h2 h3 h4 h5]
  show ?thesis by (rule conjI[OF h1 conjI[OF h5 inst]])
qed

text \<open>
  C1 as stated fails: a value that consists of a link into a non-content namespace yields no
  statement.
\<close>

theorem auto_field_category_link_emits_nothing:
  "apply_param sample_env (URIRef ''http://kg.example.org/resource/Elrond'') sample_fields {}
     (''race'', ''[[Category:Elves]]'') = Inr {}"
  by code_simp

text \<open>
  C9: in the Field Mapper, for a field of kind \<open>wikilink_or_literal\<close> or \<open>auto\<close> (predicate other
  than \<open>http://schema.org/url\<close>), a linked title whose lowercased form starts with one of
  \<open>category:\<close>, \<open>file:\<close>, \<open>template:\<close>, \<open>help:\<close>, \<open>special:\<close>, \<open>talk:\<close> is dropped: the statements
  emitted for the field do not contain the cross-reference to it, and since the list of linked
  titles is not empty the whole-value literal fallback is not emitted: the emitted statements
  are the cross-references of the other admissible titles and the literal parts, and none at
  all when there is no literal part and no admissible title.
\<close>

theorem bad_prefix_link_dropped:
  assumes "field_rules (lower (strip name)) = Some rule"
    and "rule_property rule = Some property"
    and "property \<noteq> ''http://schema.org/url''"
    and "rule_kind rule = None \<or> rule_kind rule = Some ''auto''
         \<or> rule_kind rule = Some ''wikilink_or_literal''"
    and "strip val \<noteq> []"
    and "parse_value (strip val) = Inr (linked, lits)"
    and "t \<in> set linked"
    and "startswith_any (lower t) BAD_LINK_PREFIXES"
  shows "apply_param E r field_rules g (name, val) =
       Inr (g \<union> auto_triples E r (URIRef property) (strip val) linked lits)
     \<and> (r, URIRef property, resource_uri E t)
         \<notin> auto_triples E r (URIRef property) (strip val) linked lits
     \<and> auto_triples E r (URIRef property) (strip val) linked lits =
         (\<lambda>t'. (r, URIRef property, resource_uri E t'))
           ` {t' \<in> set linked. t' \<noteq> [] \<and> \<not> startswith_any (lower t') BAD_LINK_PREFIXES}
         \<union> (\<lambda>lit. (r, URIRef property, Literal lit)) ` set lits
     \<and> (lits = [] \<and> (\<forall>t' \<in> set linked. t' = [] \<or> startswith_any (lower t') BAD_LINK_PREFIXES)
          \<longrightarrow> apply_param E r field_rules g (name, val) = Inr g)"
proof -
  have ap: "apply_param E r field_rules g (name, val) =
       Inr (g \<union> auto_triples E r (URIRef property) (strip val) linked lits)"
    by (rule apply_param_auto[where field_rules = field_rules and name = name and rule = rule
      and val = val and E = E and r = r and g = g, OF assms(1-6)])
  have "\<not> link_ok t" using assms(8) by (simp add: link_ok_def)
  with assms(6,7) have drop: "(r, URIRef property, resource_uri E t)
         \<notin> auto_triples E r (URIRef property) (strip val) linked lits"
    by (rule dropped_link_not_emitted)
  have ne: "filter (\<lambda>lit. lit \<noteq> []) lits = lits"
    using parse_value_lits_nonempty[OF assms(6)] by (simp add: filter_id_conv)
  have "linked \<noteq> []" using assms(7) by auto
  then have at: "auto_triples E r (URIRef property) (strip val) linked lits =
         (\<lambda>t'. (r, URIRef property, resource_uri E t'))
           ` {t' \<in> set linked. t' \<noteq> [] \<and> \<not> startswith_any (lower t') BAD_LINK_PREFIXES}
         \<union> (\<lambda>lit. (r, URIRef property, Literal lit)) ` set lits"
    unfolding auto_triples_def ne by (auto simp: link_ok_def)
  have none: "apply_param E r field_rules g (name, val) = Inr g"
    if "lits = [] \<and> (\<forall>t' \<in> set linked. t' = [] \<or> startswith_any (lower t') BAD_LINK_PREFIXES)"
  proof -
    from that have "{t' \<in> set linked. t' \<noteq> [] \<and> \<not> startswith_any (lower t') BAD_LINK_PREFIXES} = {}"
      by auto
    with that at have "auto_triples E r (URIRef property) (strip val) linked lits = {}"
      by simp
    with ap show ?thesis by simp
  qed
  show ?thesis
    by (intro conjI impI) (rule ap, rule drop, rule at, erule none)
qed

text \<open>An instance: the value \<open>[[File:Ring.jpg]]\<close> of the cross-reference field of the sample rules.\<close>

theorem bad_prefix_link_dropped_witness:
  "sample_fields (lower (strip ''race''))
     = Some \<lparr>rule_property = Some ''http://kg.example.org/prop/race'',
             rule_kind = Some ''wikilink_or_literal''\<rparr>
   \<and> strip ''[[File:Ring.jpg]]'' \<noteq> []
   \<and> parse_value (strip ''[[File:Ring.jpg]]'') = Inr ([''File:Ring.jpg''], [])
   \<and> startswith_any (lower ''File:Ring.jpg'') BAD_LINK_PREFIXES
   \<and> (URIRef ''r'', URIRef ''http://kg.example.org/prop/race'',
        resource_uri sample_env ''File:Ring.jpg'')
       \<notin> auto_triples sample_env (URIRef ''r'') (URIRef ''http://kg.example.org/prop/race'')
           (strip ''[[File:Ring.jpg]]'') [''File:Ring.jpg''] []
   \<and> apply_param sample_env (URIRef ''r'') sample_fields {} (''race'', ''[[File:Ring.jpg]]'')
       = Inr {}"
proof -
  have h1: "sample_fields (lower (strip ''race''))
     = Some \<lparr>rule_property = Some ''http://kg.example.org/prop/race'',
             rule_kind = Some ''wikilink_or_literal''\<rparr>"
    by code_simp
  have h2: "rule_property \<lparr>rule_property = Some ''http://kg.example.org/prop/race'',
             rule_kind = Some ''wikilink_or_literal''\<rparr> = Some ''http://kg.example.org/prop/race''"
    by simp
  have h3: "''http://kg.example.org/prop/race'' \<noteq> ''http://schema.org/url''"
    by simp
  have h4: "rule_kind \<lparr>rule_property = Some ''http://kg.example.org/prop/race'',
             rule_kind = Some ''wikilink_or_literal''\<rparr> = None
     \<or> rule_kind \<lparr>rule_property = Some ''http://kg.example.org/prop/race'',
             rule_kind = Some ''wikilink_or_literal''\<rparr> = Some ''auto''
     \<or> rule_kind \<lparr>rule_property = Some ''http://kg.example.org/prop/race'',
             rule_kind = Some ''wikilink_or_literal''\<rparr> = Some ''wikilink_or_literal''"
    by simp
  have h5: "strip ''[[File:Ring.jpg]]'' \<noteq> []"
    by code_simp
  have h6: "parse_value (strip ''[[File:Ring.jpg]]'') = Inr ([''File:Ring.jpg''], [])"
    by code_simp
  have h7: "''File:Ring.jpg'' \<in> set [''File:Ring.jpg'']"
    by simp
  have h8: "startswith_any (lower ''File:Ring.jpg'') BAD_LINK_PREFIXES"
    by code_simp
  note inst = bad_prefix_link_dropped[where field_rules = sample_fields and name = "''race''"
      and val = "''[[File:Ring.jpg]]''" and E = sample_env and r = "URIRef ''r''" and g = "{}"
      and t = "''File:Ring.jpg''", OF h1 h2 h3 h4 h5 h6 h7 h8]
  from inst have d: "(URIRef ''r'', URIRef ''http://kg.example.org/prop/race'',
        resource_uri sample_env ''File:Ring.jpg'')
       \<notin> auto_triples sample_env (URIRef ''r'') (URIRef ''http://kg.example.org/prop/race'')
           (strip ''[[File:Ring.jpg]]'') [''File:Ring.jpg''] []"
    by (rule conjunct1[OF conjunct2])
  from inst h8 have n: "apply_param sample_env (URIRef ''r'') sample_fields {}
      (''race'', ''[[File:Ring.jpg]]'') = Inr {}"
    by simp
  show ?thesis
    by (intro conjI) (rule h1, rule h5, rule h6, rule h8, rule d, rule n)
qed

section \<open>The page graph assembler\<close>

subsection \<open>Growing graphs\<close>

lemma for_each_mono:
  assumes "\<And>s x s'. f s x = Inr s' \<Longrightarrow> s \<subseteq> s'"
  shows "for_each f s xs = Inr s' \<Longrightarrow> s \<subseteq> s'"
proof (induction xs arbitrary: s)
  case Nil
  then show ?case by simp
next
  case (Cons x xs)
  from Cons.prems obtain s1 where s1: "f s x = Inr s1" "for_each f s1 xs = Inr s'"
    by (auto split: sum.splits)
  from s1(1) have "s \<subseteq> s1" by (rule assms)
  moreover from s1(2) have "s1 \<subseteq> s'" by (rule Cons.IH)
  ultimately show ?case by simp
qed

lemma for_each_append:
  "for_each f s (xs @ ys) =
     (case for_each f s xs of Inl e \<Rightarrow> Inl e | Inr s' \<Rightarrow> for_each f s' ys)"
  by (induction xs arbitrary: s) (simp_all split: sum.splits)

lemma add_url_mono: "add_url E r prop g u = Inr g' \<Longrightarrow> g \<subseteq> g'"
  by (auto simp: add_url_def split: sum.splits option.splits if_splits)

lemma apply_param_mono: "apply_param E r field_rules g param = Inr g' \<Longrightarrow> g \<subseteq> g'"
proof -
  assume a: "apply_param E r field_rules g param = Inr g'"
  have fe: "for_each (add_url E r p) g us = Inr g' \<Longrightarrow> g \<subseteq> g'" for p us
    using add_url_mono by (rule for_each_mono)
  from a show "g \<subseteq> g'"
    unfolding apply_param_def Let_def
    by (auto split: option.splits if_splits sum.splits prod.splits dest: fe add_url_mono)
qed

lemma add_type_mono: "g \<subseteq> add_type r cls g"
  by (auto simp: add_type_def split: option.splits)

lemma apply_infobox_mono: "apply_infobox E g r tmpl m = Inr g' \<Longrightarrow> g \<subseteq> g'"
proof -
  assume a: "apply_infobox E g r tmpl m = Inr g'"
  show "g \<subseteq> g'"
  proof (cases "m (normalize_template_name (tmpl_name tmpl))")
    case None
    with a show ?thesis by (simp add: apply_infobox_def)
  next
    case (Some spec)
    with a have "for_each (apply_param E r (spec_fields spec))
        (add_type r (spec_tg_class spec) (add_type r (spec_class spec) g)) (tmpl_params tmpl)
        = Inr g'"
      by (simp add: apply_infobox_def Let_def)
    then have "add_type r (spec_tg_class spec) (add_type r (spec_class spec) g) \<subseteq> g'"
      using apply_param_mono by (rule for_each_mono[rotated])
    with add_type_mono show ?thesis by blast
  qed
qed

subsection \<open>External links\<close>

lemma urlunsplit_nonempty: "scheme c \<noteq> [] \<Longrightarrow> urlunsplit c \<noteq> []"
  by (simp add: urlunsplit_def Let_def)

lemma safe_iri_nonempty: "safe_iri E u = Inr (Some iri) \<Longrightarrow> iri \<noteq> []"
  by (auto simp: safe_iri_def safe_iri_try_def Let_def urlunsplit_nonempty
      split: if_splits sum.splits)

lemma add_external_eq:
  "add_external E (page_uri E title) (resource_uri E title) g u
     = Inr (insert (external_triple E title u) g)"
proof -
  obtain res where res: "safe_iri E u = Inr res" using safe_iri_returns by blast
  show ?thesis
  proof (cases res)
    case None
    with res show ?thesis by (simp add: add_external_def external_triple_def)
  next
    case (Some iri)
    with res have "iri \<noteq> []" using safe_iri_nonempty by blast
    with res Some show ?thesis by (simp add: add_external_def external_triple_def)
  qed
qed

lemma for_each_add_external:
  "for_each (add_external E (page_uri E title) (resource_uri E title)) g us
     = Inr (g \<union> external_triple E title ` set us)"
proof (induction us arbitrary: g)
  case Nil
  then show ?case by simp
next
  case (Cons u us)
  have "for_each (add_external E (page_uri E title) (resource_uri E title)) g (u # us)
      = for_each (add_external E (page_uri E title) (resource_uri E title))
          (insert (external_triple E title u) g) us"
    by (simp add: add_external_eq)
  also have "\<dots> = Inr (insert (external_triple E title u) g \<union> external_triple E title ` set us)"
    by (rule Cons.IH)
  also have "\<dots> = Inr (g \<union> external_triple E title ` set (u # us))"
    by auto
  finally show ?case .
qed

subsection \<open>The graph of a page\<close>

lemma add_core_triples_eq:
  "add_core_triples E {} title = (core_triples E title, page_uri E title, resource_uri E title)"
  by (auto simp: add_core_triples_def core_triples_def Let_def)

lemma build_graph_for_title_eq:
  assumes "cache title = Some pj"
  shows "build_graph_for_title E cache title m include_infobox =
    (if include_infobox
     then for_each (\<lambda>g tmpl. apply_infobox E g (resource_uri E title) tmpl m)
            (core_triples E title
              \<union> (\<lambda>lt. (resource_uri E title, SCHEMA ''relatedTo'', resource_uri E lt))
                  ` set (extract_links pj)
              \<union> external_triple E title ` set (pj_externallinks pj))
            (find_mapped_templates pj m)
     else Inr (core_triples E title
              \<union> (\<lambda>lt. (resource_uri E title, SCHEMA ''relatedTo'', resource_uri E lt))
                  ` set (extract_links pj)
              \<union> external_triple E title ` set (pj_externallinks pj)))"
  using assms
  by (simp add: build_graph_for_title_def Let_def add_core_triples_eq for_each_add_external
      extract_externallinks_def)

lemma page_uri_neq_resource_uri: "page_uri E t \<noteq> resource_uri E t'"
  by (simp add: page_uri_def resource_uri_def PAGE_def RES_def)

lemma card_core_triples: "card (core_triples E title) = 5"
proof -
  have "page_uri E title \<noteq> resource_uri E title" by (rule page_uri_neq_resource_uri)
  then show ?thesis
    by (auto simp: core_triples_def SCHEMA_def RDFS_label_def)
qed

lemma build_graph_for_title_core:
  assumes "cache title = Some pj"
    and "build_graph_for_title E cache title m include_infobox = Inr g"
  shows "core_triples E title \<subseteq> g"
proof (cases include_infobox)
  case True
  with assms have "for_each (\<lambda>g tmpl. apply_infobox E g (resource_uri E title) tmpl m)
            (core_triples E title
              \<union> (\<lambda>lt. (resource_uri E title, SCHEMA ''relatedTo'', resource_uri E lt))
                  ` set (extract_links pj)
              \<union> external_triple E title ` set (pj_externallinks pj))
            (find_mapped_templates pj m) = Inr g"
    by (simp add: build_graph_for_title_eq)
  then have "core_triples E title
              \<union> (\<lambda>lt. (resource_uri E title, SCHEMA ''relatedTo'', resource_uri E lt))
                  ` set (extract_links pj)
              \<union> external_triple E title ` set (pj_externallinks pj) \<subseteq> g"
    using apply_infobox_mono by (rule for_each_mono[rotated])
  then show ?thesis by blast
next
  case False
  with assms show ?thesis by (auto simp: build_graph_for_title_eq)
qed

text \<open>
  C7: for every page title with a cached page, the output set of the assembler contains the
  five core identity statements: document \<open>about\<close> entity, the canonical source-document URL on
  the document and on the entity identifier, and an English-tagged label on both identifiers
  whose lexical value is the page title as given. The five are distinct. When the page has no
  mapped template (or infobox mapping is off) the assembler returns, and its output is the
  core statements together with those of the internal and external links; without links the
  core statements are the only ones.
\<close>

theorem core_identity_statements:
  assumes "cache title = Some pj"
  shows "core_triples E title =
       {(page_uri E title, SCHEMA ''about'', resource_uri E title),
        (page_uri E title, SCHEMA ''url'', wiki_url E title),
        (resource_uri E title, SCHEMA ''url'', wiki_url E title),
        (resource_uri E title, RDFS_label, LangLiteral title ''en''),
        (page_uri E title, RDFS_label, LangLiteral title ''en'')}
     \<and> card (core_triples E title) = 5
     \<and> (\<forall>g. build_graph_for_title E cache title m include_infobox = Inr g
           \<longrightarrow> core_triples E title \<subseteq> g)
     \<and> (\<not> include_infobox \<or> find_mapped_templates pj m = [] \<longrightarrow>
          build_graph_for_title E cache title m include_infobox =
            Inr (core_triples E title
              \<union> (\<lambda>lt. (resource_uri E title, SCHEMA ''relatedTo'', resource_uri E lt))
                  ` set (extract_links pj)
              \<union> external_triple E title ` set (pj_externallinks pj)))
     \<and> ((\<not> include_infobox \<or> find_mapped_templates pj m = [])
          \<and> extract_links pj = [] \<and> pj_externallinks pj = [] \<longrightarrow>
          build_graph_for_title E cache title m include_infobox = Inr (core_triples E title))"
proof -
  have a: "\<forall>g. build_graph_for_title E cache title m include_infobox = Inr g
           \<longrightarrow> core_triples E title \<subseteq> g"
    using build_graph_for_title_core[where cache = cache and title = title, OF assms] by blast
  have b: "build_graph_for_title E cache title m include_infobox =
            Inr (core_triples E title
              \<union> (\<lambda>lt. (resource_uri E title, SCHEMA ''relatedTo'', resource_uri E lt))
                  ` set (extract_links pj)
              \<union> external_triple E title ` set (pj_externallinks pj))"
    if "\<not> include_infobox \<or> find_mapped_templates pj m = []"
    using that build_graph_for_title_eq[where cache = cache and title = title, OF assms]
    by auto
  have c: "build_graph_for_title E cache title m include_infobox = Inr (core_triples E title)"
    if "(\<not> include_infobox \<or> find_mapped_templates pj m = [])
          \<and> extract_links pj = [] \<and> pj_externallinks pj = []"
    using that b by simp
  show ?thesis
    by (intro conjI impI) (rule core_triples_def, rule card_core_triples, rule a, erule b, erule c)
qed

text \<open>An instance: the sample page ``Gondor'', whose only template is not mapped.\<close>

theorem core_identity_statements_witness:
  "sample_cache ''Gondor''
     = Some gondor_page
   \<and> find_mapped_templates gondor_page sample_mappings = []
   \<and> build_graph_for_title sample_env sample_cache ''Gondor'' sample_mappings True
       = Inr (core_triples sample_env ''Gondor'')
   \<and> core_triples sample_env ''Gondor'' \<subseteq> core_triples sample_env ''Gondor''
   \<and> card (core_triples sample_env ''Gondor'') = 5"
proof -
  have h1: "sample_cache ''Gondor''
     = Some gondor_page"
    by code_simp
  have h2: "find_mapped_templates gondor_page sample_mappings = []"
    by code_simp
  have h3: "extract_links gondor_page = []"
    by code_simp
  note inst = core_identity_statements[where cache = sample_cache and title = "''Gondor''"
      and E = sample_env and m = sample_mappings and include_infobox = True, OF h1]
  have h4: "pj_externallinks gondor_page = []"
    by (simp add: gondor_page_def)
  from inst h2 h3 h4 have b: "build_graph_for_title sample_env sample_cache ''Gondor''
      sample_mappings True = Inr (core_triples sample_env ''Gondor'')"
    by blast
  from inst b have s: "core_triples sample_env ''Gondor'' \<subseteq> core_triples sample_env ''Gondor''"
    by blast
  from inst have k: "card (core_triples sample_env ''Gondor'') = 5"
    by blast
  show ?thesis
    by (intro conjI) (rule h1, rule h2, rule b, rule s, rule k)
qed

text \<open>
  C8: for every external link string of the page context, \<open>safe_iri\<close> returns; if it returns an
  escaped IRI and the lowercased raw string contains \<open>wikipedia.org/wiki/\<close>, the link adds
  exactly one \<open>owl:sameAs\<close> statement from the entity identifier to the escaped IRI; otherwise it
  adds exactly one \<open>schema:url\<close> statement on the document identifier, whose object is the
  escaped IRI when escaping succeeded and the plain-text literal of the raw string when it
  failed. The statement is in the output of the assembler: no external link is dropped.
\<close>

theorem external_link_statements:
  assumes "cache title = Some pj"
    and "build_graph_for_title E cache title m include_infobox = Inr g"
    and "u \<in> set (pj_externallinks pj)"
  shows "\<exists>res t.
      safe_iri E u = Inr res
    \<and> t = (case res of
             Some iri \<Rightarrow>
               if contains (lower u) ''wikipedia.org/wiki/''
               then (resource_uri E title, OWL_sameAs, URIRef iri)
               else (page_uri E title, SCHEMA ''url'', URIRef iri)
           | None \<Rightarrow> (page_uri E title, SCHEMA ''url'', Literal u))
    \<and> add_external E (page_uri E title) (resource_uri E title) g0 u = Inr (insert t g0)
    \<and> t \<in> g"
proof -
  obtain res where res: "safe_iri E u = Inr res" using safe_iri_returns by blast
  define t where "t = (case res of
             Some iri \<Rightarrow>
               if contains (lower u) ''wikipedia.org/wiki/''
               then (resource_uri E title, OWL_sameAs, URIRef iri)
               else (page_uri E title, SCHEMA ''url'', URIRef iri)
           | None \<Rightarrow> (page_uri E title, SCHEMA ''url'', Literal u))"
  have et: "external_triple E title u = t"
    using res by (simp add: external_triple_def t_def split: option.splits)
  have ad: "add_external E (page_uri E title) (resource_uri E title) g0 u = Inr (insert t g0)"
    using add_external_eq[of E title g0 u] et by simp
  have "external_triple E title u \<in> g"
  proof (cases include_infobox)
    case True
    with assms(1,2) have "for_each (\<lambda>g tmpl. apply_infobox E g (resource_uri E title) tmpl m)
            (core_triples E title
              \<union> (\<lambda>lt. (resource_uri E title, SCHEMA ''relatedTo'', resource_uri E lt))
                  ` set (extract_links pj)
              \<union> external_triple E title ` set (pj_externallinks pj))
            (find_mapped_templates pj m) = Inr g"
      by (simp add: build_graph_for_title_eq)
    then have "core_triples E title
              \<union> (\<lambda>lt. (resource_uri E title, SCHEMA ''relatedTo'', resource_uri E lt))
                  ` set (extract_links pj)
              \<union> external_triple E title ` set (pj_externallinks pj) \<subseteq> g"
      using apply_infobox_mono by (rule for_each_mono[rotated])
    with assms(3) show ?thesis by blast
  next
    case False
    with assms show ?thesis by (auto simp: build_graph_for_title_eq)
  qed
  with et have "t \<in> g" by simp
  show ?thesis
    by (intro exI conjI) (rule res, rule t_def, rule ad, rule \<open>t \<in> g\<close>)
qed


text \<open>An instance: the sample page ``Rivendell'' and its link to the encyclopedia.\<close>

theorem external_link_statements_witness:
  "sample_cache ''Rivendell'' = Some rivendell_page
   \<and> build_graph_for_title sample_env sample_cache ''Rivendell'' sample_mappings True =
       Inr (core_triples sample_env ''Rivendell''
         \<union> (\<lambda>lt. (resource_uri sample_env ''Rivendell'', SCHEMA ''relatedTo'',
                   resource_uri sample_env lt)) ` set (extract_links rivendell_page)
         \<union> external_triple sample_env ''Rivendell'' ` set (pj_externallinks rivendell_page))
   \<and> ''https://en.wikipedia.org/wiki/Rivendell'' \<in> set (pj_externallinks rivendell_page)
   \<and> (\<exists>res t.
        safe_iri sample_env ''https://en.wikipedia.org/wiki/Rivendell'' = Inr res
      \<and> t = (case res of
               Some iri \<Rightarrow>
                 if contains (lower ''https://en.wikipedia.org/wiki/Rivendell'')
                      ''wikipedia.org/wiki/''
                 then (resource_uri sample_env ''Rivendell'', OWL_sameAs, URIRef iri)
                 else (page_uri sample_env ''Rivendell'', SCHEMA ''url'', URIRef iri)
             | None \<Rightarrow> (page_uri sample_env ''Rivendell'', SCHEMA ''url'',
                         Literal ''https://en.wikipedia.org/wiki/Rivendell''))
      \<and> add_external sample_env (page_uri sample_env ''Rivendell'')
            (resource_uri sample_env ''Rivendell'') {}
            ''https://en.wikipedia.org/wiki/Rivendell'' = Inr (insert t {})
      \<and> t \<in> core_triples sample_env ''Rivendell''
         \<union> (\<lambda>lt. (resource_uri sample_env ''Rivendell'', SCHEMA ''relatedTo'',
                   resource_uri sample_env lt)) ` set (extract_links rivendell_page)
         \<union> external_triple sample_env ''Rivendell'' ` set (pj_externallinks rivendell_page))"
proof -
  have h1: "sample_cache ''Rivendell'' = Some rivendell_page"
    by code_simp
  have ft: "find_mapped_templates rivendell_page sample_mappings = []"
    by code_simp
  have h2: "build_graph_for_title sample_env sample_cache ''Rivendell'' sample_mappings True =
       Inr (core_triples sample_env ''Rivendell''
         \<union> (\<lambda>lt. (resource_uri sample_env ''Rivendell'', SCHEMA ''relatedTo'',
                   resource_uri sample_env lt)) ` set (extract_links rivendell_page)
         \<union> external_triple sample_env ''Rivendell'' ` set (pj_externallinks rivendell_page))"
    using build_graph_for_title_eq[where cache = sample_cache and title = "''Rivendell''"
        and E = sample_env and m = sample_mappings and include_infobox = True, OF h1] ft
    by simp
  have h3: "''https://en.wikipedia.org/wiki/Rivendell'' \<in> set (pj_externallinks rivendell_page)"
    by (simp add: rivendell_page_def)
  note inst = external_link_statements[where cache = sample_cache and title = "''Rivendell''"
      and E = sample_env and m = sample_mappings and include_infobox = True
      and u = "''https://en.wikipedia.org/wiki/Rivendell''" and ?g0.0 = "{}", OF h1 h2 h3]
  show ?thesis
    by (intro conjI) (rule h1, rule h2, rule h3, rule inst)
qed

subsection \<open>Failures\<close>

lemma for_each_raises:
  assumes "for_each f s xs = Inr s1" "f s1 x = Inl e"
  shows "for_each f s (xs @ x # ys) = Inl e"
  using assms by (simp add: for_each_append)

lemma chunk_loop_at_max:
  assumes "case max_pages of None \<Rightarrow> False | Some mx \<Rightarrow> processed st \<ge> mx"
  shows "chunk_loop E cache m include_infobox chunk_size max_pages st titles = st"
  using assms by (cases titles) simp_all

lemma chunk_loop_skip:
  assumes "build_graph_for_title E cache title m include_infobox = Inl e"
  shows "chunk_loop E cache m include_infobox chunk_size max_pages st (title # titles)
     = chunk_loop E cache m include_infobox chunk_size max_pages st titles"
proof (cases "case max_pages of None \<Rightarrow> False | Some mx \<Rightarrow> processed st \<ge> mx")
  case True
  then show ?thesis by (simp add: chunk_loop_at_max)
next
  case False
  with assms show ?thesis by (simp add: chunk_step_def)
qed

text \<open>
  C3, amended: if mapping one template invocation of a page raises an exception, the exception
  leaves \<open>build_graph_for_title\<close>, which returns no statement set for the page, and is caught at
  the page boundary by the batch driver: the driver's state (chunk, counters, files) is left as
  it was, so the page contributes no statement, also not those of its core identity step, its
  link steps and its other invocations, and the loop goes on with the next title.
\<close>

theorem invocation_failure_skips_page:
  assumes "cache title = Some pj"
    and "build_graph_for_title E cache title m False = Inr g0"
    and "find_mapped_templates pj m = ts1 @ tmpl # ts2"
    and "for_each (\<lambda>g t. apply_infobox E g (resource_uri E title) t m) g0 ts1 = Inr g1"
    and "apply_infobox E g1 (resource_uri E title) tmpl m = Inl e"
  shows "build_graph_for_title E cache title m True = Inl e
     \<and> chunk_step E cache m True chunk_size st title = st
     \<and> chunk_loop E cache m True chunk_size max_pages st (title # titles)
         = chunk_loop E cache m True chunk_size max_pages st titles"
proof -
  have g0: "g0 = core_triples E title
              \<union> (\<lambda>lt. (resource_uri E title, SCHEMA ''relatedTo'', resource_uri E lt))
                  ` set (extract_links pj)
              \<union> external_triple E title ` set (pj_externallinks pj)"
    using assms(2) build_graph_for_title_eq[where cache = cache and title = title
        and E = E and m = m and include_infobox = False, OF assms(1)]
    by simp
  have "for_each (\<lambda>g t. apply_infobox E g (resource_uri E title) t m) g0 (ts1 @ tmpl # ts2)
      = Inl e"
    using assms(4,5) by (rule for_each_raises)
  then have b: "build_graph_for_title E cache title m True = Inl e"
    using build_graph_for_title_eq[where cache = cache and title = title
        and E = E and m = m and include_infobox = True, OF assms(1)] g0 assms(3)
    by simp
  then have s: "chunk_step E cache m True chunk_size st title = st"
    by (simp add: chunk_step_def)
  from b have l: "chunk_loop E cache m True chunk_size max_pages st (title # titles)
         = chunk_loop E cache m True chunk_size max_pages st titles"
    by (rule chunk_loop_skip)
  show ?thesis
    by (intro conjI) (rule b, rule s, rule l)
qed

text \<open>
  An instance: the sample page ``Elrond'', whose infobox has a parameter with a field rule
  without \<open>property\<close>.
\<close>

theorem invocation_failure_skips_page_witness:
  "sample_cache ''Elrond'' = Some elrond_page
   \<and> find_mapped_templates elrond_page sample_mappings = [] @ hd (pj_templates elrond_page) # []
   \<and> build_graph_for_title sample_env sample_cache ''Elrond'' sample_mappings False
       = Inr (core_triples sample_env ''Elrond''
           \<union> {(resource_uri sample_env ''Elrond'', SCHEMA ''relatedTo'',
                 resource_uri sample_env ''Rivendell'')})
   \<and> apply_infobox sample_env
        (core_triples sample_env ''Elrond''
           \<union> {(resource_uri sample_env ''Elrond'', SCHEMA ''relatedTo'',
                 resource_uri sample_env ''Rivendell'')})
        (resource_uri sample_env ''Elrond'') (hd (pj_templates elrond_page)) sample_mappings
       = Inl KeyError
   \<and> build_graph_for_title sample_env sample_cache ''Elrond'' sample_mappings True = Inl KeyError
   \<and> chunk_loop sample_env sample_cache sample_mappings True 500 None
        \<lparr>chunk = {}, processed = 0, part = 1, produced = []\<rparr> [''Elrond'', ''Gondor'']
       = chunk_loop sample_env sample_cache sample_mappings True 500 None
        \<lparr>chunk = {}, processed = 0, part = 1, produced = []\<rparr> [''Gondor'']"
proof -
  have h1: "sample_cache ''Elrond'' = Some elrond_page"
    by code_simp
  have h3: "find_mapped_templates elrond_page sample_mappings
      = [] @ hd (pj_templates elrond_page) # []"
    by code_simp
  have el: "extract_links elrond_page = [''Rivendell'']"
    by code_simp
  have h2: "build_graph_for_title sample_env sample_cache ''Elrond'' sample_mappings False
       = Inr (core_triples sample_env ''Elrond''
           \<union> {(resource_uri sample_env ''Elrond'', SCHEMA ''relatedTo'',
                 resource_uri sample_env ''Rivendell'')})"
    using build_graph_for_title_eq[where cache = sample_cache and title = "''Elrond''"
        and E = sample_env and m = sample_mappings and include_infobox = False, OF h1] el
    by (simp add: elrond_page_def)
  have h4: "for_each (\<lambda>g t. apply_infobox sample_env g (resource_uri sample_env ''Elrond'') t
        sample_mappings)
      (core_triples sample_env ''Elrond''
           \<union> {(resource_uri sample_env ''Elrond'', SCHEMA ''relatedTo'',
                 resource_uri sample_env ''Rivendell'')}) []
      = Inr (core_triples sample_env ''Elrond''
           \<union> {(resource_uri sample_env ''Elrond'', SCHEMA ''relatedTo'',
                 resource_uri sample_env ''Rivendell'')})"
    by simp
  have h5: "apply_infobox sample_env
        (core_triples sample_env ''Elrond''
           \<union> {(resource_uri sample_env ''Elrond'', SCHEMA ''relatedTo'',
                 resource_uri sample_env ''Rivendell'')})
        (resource_uri sample_env ''Elrond'') (hd (pj_templates elrond_page)) sample_mappings
       = Inl KeyError"
    by code_simp
  note inst = invocation_failure_skips_page[where cache = sample_cache and title = "''Elrond''"
      and E = sample_env and m = sample_mappings and chunk_size = 500 and max_pages = None
      and st = "\<lparr>chunk = {}, processed = 0, part = 1, produced = []\<rparr>"
      and titles = "[''Gondor'']", OF h1 h2 h3 h4 h5]
  from inst have b: "build_graph_for_title sample_env sample_cache ''Elrond'' sample_mappings True
      = Inl KeyError"
    by (rule conjunct1)
  from inst have l: "chunk_loop sample_env sample_cache sample_mappings True 500 None
        \<lparr>chunk = {}, processed = 0, part = 1, produced = []\<rparr> [''Elrond'', ''Gondor'']
       = chunk_loop sample_env sample_cache sample_mappings True 500 None
        \<lparr>chunk = {}, processed = 0, part = 1, produced = []\<rparr> [''Gondor'']"
    by (rule conjunct2[OF conjunct2])
  show ?thesis
    by (intro conjI) (rule h1, rule h3, rule h2, rule h5, rule b, rule l)
qed

text \<open>
  C3 as stated fails: the exception of the one invocation leaves the page without output, and
  the batch driver writes no statement of the page, so not its core identity statements.
\<close>

theorem invocation_failure_blanks_page:
  "build_graph_for_title sample_env sample_cache ''Elrond'' sample_mappings True = Inl KeyError
   \<and> build_kg_chunked sample_env sample_cache [''Elrond''] sample_mappings True 500 None = []
   \<and> build_graph_for_title sample_env sample_cache ''Elrond'' sample_mappings False
       \<noteq> Inl KeyError"
  by code_simp

section \<open>Fragment references\<close>

subsection \<open>Where a match can begin\<close>




subsection \<open>Texts without a match\<close>






subsection \<open>Texts the markup patterns leave alone\<close>









subsection \<open>A token with a fragment\<close>













end
